theory Spec2Isabelle
  imports Main
begin

section \<open>Python strings\<close>

text \<open>
  A Python \<open>str\<close> is modelled as a \<open>string\<close>; one \<open>char\<close> stands for one code
  point, so the model covers the code points below 256. \<open>isspace\<close> is
  \<open>str.isspace\<close> on that range: TAB..CR, FS..US, space, NEL and NBSP.
\<close>

definition isspace :: "char \<Rightarrow> bool" where
  "isspace c =
     (let n = (of_char c :: nat)
      in (9 \<le> n \<and> n \<le> 13) \<or> (28 \<le> n \<and> n \<le> 32) \<or> n = 133 \<or> n = 160)"

definition lstrip :: "string \<Rightarrow> string" where
  "lstrip s = dropWhile isspace s"

definition rstrip :: "string \<Rightarrow> string" where
  "rstrip s = rev (dropWhile isspace (rev s))"

text \<open>\<open>s.strip()\<close>\<close>

definition strip :: "string \<Rightarrow> string" where
  "strip s = rstrip (lstrip s)"

text \<open>\<open>s.lower()\<close> on the same range: A..Z and the Latin-1 capitals.\<close>

definition lower_char :: "char \<Rightarrow> char" where
  "lower_char c =
     (let n = (of_char c :: nat)
      in if (65 \<le> n \<and> n \<le> 90) \<or> (192 \<le> n \<and> n \<le> 222 \<and> n \<noteq> 215)
         then char_of (n + 32) else c)"

definition lower :: "string \<Rightarrow> string" where
  "lower s = map lower_char s"

text \<open>\<open>s.endswith(suf)\<close>\<close>

definition endswith :: "string \<Rightarrow> string \<Rightarrow> bool" where
  "endswith s suf = (length suf \<le> length s \<and> drop (length s - length suf) s = suf)"

text \<open>\<open>sep.join(xs)\<close>\<close>

fun join :: "string \<Rightarrow> string list \<Rightarrow> string" where
  "join sep [] = []"
| "join sep [x] = x"
| "join sep (x # y # ys) = x @ sep @ join sep (y # ys)"

section \<open>Python values\<close>

text \<open>
  What \<open>json.loads\<close> can return, and \<open>np.nan\<close>. A JSON number is kept as an
  integer: the code below only tests a number for truth and then fails on its missing
  \<open>strip\<close>, which a float does in the same way.
\<close>

datatype pyval =
    PNone
  | PNaN
  | PBool bool
  | PNum int
  | PStr string
  | PList "pyval list"
  | PDict "(string \<times> pyval) list"

text \<open>Truth value of a Python object (\<open>nan\<close> is true).\<close>

fun truthy :: "pyval \<Rightarrow> bool" where
  "truthy PNone = False"
| "truthy PNaN = True"
| "truthy (PBool b) = b"
| "truthy (PNum n) = (n \<noteq> 0)"
| "truthy (PStr s) = (s \<noteq> [])"
| "truthy (PList xs) = (xs \<noteq> [])"
| "truthy (PDict d) = (d \<noteq> [])"

text \<open>\<open>d.get(k, default)\<close>: the default is used only when the key is absent.\<close>

definition dict_get :: "(string \<times> 'v) list \<Rightarrow> string \<Rightarrow> 'v \<Rightarrow> 'v" where
  "dict_get d k dflt = (case map_of d k of Some v \<Rightarrow> v | None \<Rightarrow> dflt)"

section \<open>Normalized rows\<close>

text \<open>
  A cell of the \<open>text\<close> column (field \<open>row_text\<close>): a string, or \<open>NaN\<close> for an empty spreadsheet cell.
  A label is \<open>None\<close> while it is \<open>np.nan\<close>.
\<close>

datatype cell = Str string | NaN

record row =
  source :: pyval
  source_id :: pyval
  row_text :: cell
  label :: "int option"

section \<open>Dataset Normalizer: \<open>process_jsonl_files\<close>\<close>

datatype msg =
    Warn_directory_missing
  | Processing string
  | Error_parsing_JSON string nat
  | Unexpected_error string nat
  | No_JSONL_files
  | Successfully_processed nat
  | Error_loading_TSAC
  | Error_no_data

text \<open>
  The body of the \<open>try\<close> for one line. \<open>loads\<close> is \<open>json.loads\<close>, with \<open>None\<close>
  for \<open>JSONDecodeError\<close>. \<open>Other_exception\<close> is the \<open>AttributeError\<close> of
  \<open>data.get\<close> on a value that is no dict, or of \<open>text.strip\<close> on a true value that is
  no string.
\<close>

datatype line_result = JSONDecodeError | Other_exception | No_row | Row row

definition extract_text :: "(string \<times> pyval) list \<Rightarrow> pyval" where
  "extract_text data =
     dict_get data ''text_raw'' (dict_get data ''text'' (dict_get data ''content'' (PStr '''')))"

definition try_line :: "(string \<Rightarrow> pyval option) \<Rightarrow> int option \<Rightarrow> string \<Rightarrow> line_result" where
  "try_line loads lbl line =
     (case loads (strip line) of
        None \<Rightarrow> JSONDecodeError
      | Some (PDict data) \<Rightarrow>
          (let src = dict_get data ''source'' (PStr ''unknown'');
               sid = dict_get data ''id'' (dict_get data ''source_id'' PNaN);
               txt = extract_text data
           in if \<not> truthy txt then No_row
              else (case txt of
                      PStr s \<Rightarrow>
                        if strip s \<noteq> []
                        then Row \<lparr>source = src, source_id = sid, row_text = Str (strip s), label = lbl\<rparr>
                        else No_row
                    | _ \<Rightarrow> Other_exception))
      | Some _ \<Rightarrow> Other_exception)"

record nstate =
  processed_data :: "row list"
  logged :: "msg list"
  jsonl_files_found :: bool

definition line_step ::
  "(string \<Rightarrow> pyval option) \<Rightarrow> int option \<Rightarrow> string \<Rightarrow> nat \<Rightarrow> string \<Rightarrow> nstate \<Rightarrow> nstate" where
  "line_step loads lbl filename line_num line st =
     (case try_line loads lbl line of
        Row r \<Rightarrow> st\<lparr>processed_data := processed_data st @ [r]\<rparr>
      | No_row \<Rightarrow> st
      | JSONDecodeError \<Rightarrow> st\<lparr>logged := logged st @ [Error_parsing_JSON filename line_num]\<rparr>
      | Other_exception \<Rightarrow> st\<lparr>logged := logged st @ [Unexpected_error filename line_num]\<rparr>)"

text \<open>\<open>for line_num, line in enumerate(f, 1)\<close>\<close>

fun process_lines ::
  "(string \<Rightarrow> pyval option) \<Rightarrow> int option \<Rightarrow> string \<Rightarrow> nat \<Rightarrow> string list \<Rightarrow> nstate \<Rightarrow> nstate" where
  "process_lines loads lbl filename line_num [] st = st"
| "process_lines loads lbl filename line_num (line # rest) st =
     process_lines loads lbl filename (Suc line_num) rest
       (line_step loads lbl filename line_num line st)"

text \<open>\<open>for filename in os.listdir(jsonl_directory)\<close>: a file is its name and its lines.\<close>

fun process_files ::
  "(string \<Rightarrow> pyval option) \<Rightarrow> int option \<Rightarrow> (string \<times> string list) list \<Rightarrow> nstate \<Rightarrow> nstate" where
  "process_files loads lbl [] st = st"
| "process_files loads lbl ((filename, lines) # rest) st =
     (if endswith filename ''.jsonl''
      then process_files loads lbl rest
             (process_lines loads lbl filename 1 lines
                (st\<lparr>jsonl_files_found := True, logged := logged st @ [Processing filename]\<rparr>))
      else process_files loads lbl rest st)"

text \<open>The directory is \<open>None\<close> when it does not exist.\<close>

definition process_jsonl_files_with ::
  "int option \<Rightarrow> (string \<Rightarrow> pyval option) \<Rightarrow> (string \<times> string list) list option
     \<Rightarrow> row list \<times> msg list" where
  "process_jsonl_files_with lbl loads jsonl_directory =
     (case jsonl_directory of
        None \<Rightarrow> ([], [Warn_directory_missing])
      | Some files \<Rightarrow>
          (let st = process_files loads lbl files
                      \<lparr>processed_data = [], logged = [], jsonl_files_found = False\<rparr>
           in (processed_data st,
               logged st @ [if \<not> jsonl_files_found st then No_JSONL_files
                            else Successfully_processed (length (processed_data st))])))"

text \<open>\<open>merge_datasets.process_jsonl_files\<close>: the label is \<open>np.nan\<close>.\<close>

definition process_jsonl_files ::
  "(string \<Rightarrow> pyval option) \<Rightarrow> (string \<times> string list) list option \<Rightarrow> row list \<times> msg list" where
  "process_jsonl_files = process_jsonl_files_with None"

text \<open>\<open>merge_collected_data.process_jsonl_files\<close>: the same loop, the label is 0.\<close>

definition mcd_process_jsonl_files ::
  "(string \<Rightarrow> pyval option) \<Rightarrow> (string \<times> string list) list option \<Rightarrow> row list \<times> msg list" where
  "mcd_process_jsonl_files = process_jsonl_files_with (Some 0)"

text \<open>What one line, and one file, add to \<open>processed_data\<close>.\<close>

definition line_rows :: "(string \<Rightarrow> pyval option) \<Rightarrow> int option \<Rightarrow> string \<Rightarrow> row list" where
  "line_rows loads lbl line = (case try_line loads lbl line of Row r \<Rightarrow> [r] | _ \<Rightarrow> [])"

definition file_rows ::
  "(string \<Rightarrow> pyval option) \<Rightarrow> int option \<Rightarrow> string \<times> string list \<Rightarrow> row list" where
  "file_rows loads lbl = (\<lambda>(filename, lines).
      if endswith filename ''.jsonl'' then concat (map (line_rows loads lbl) lines) else [])"

text \<open>
  Two batch files for the examples: one with three valid lines and a malformed one, one
  with two valid lines, the first repeating a text of the first file. A third file has
  another suffix. \<open>ex_loads\<close> is \<open>json.loads\<close> on the lines that occur.
\<close>

definition ex_record :: "string \<Rightarrow> string \<Rightarrow> pyval" where
  "ex_record i t = PDict [(''source'', PStr ''youtube''), (''id'', PStr i), (''text_raw'', PStr t)]"

definition ex_loads :: "string \<Rightarrow> pyval option" where
  "ex_loads = map_of
     [(''L1'', ex_record ''c1'' ''salut tout le monde''),
      (''L2'', ex_record ''c2'' ''  behi barcha  ''),
      (''L3'', ex_record ''c3'' ''yesser'')  ,
      (''L4'', ex_record ''c4'' ''   ''),
      (''L5'', ex_record ''c5'' ''behi barcha''),
      (''L6'', ex_record ''c6'' ''mrigel''),
      (''L7'', PList [PNum 1])]"

definition ex_files :: "(string \<times> string list) list" where
  "ex_files =
     [(''data_youtube_id_a.jsonl'', [''L1'', ''{bad'', ''L2'', ''L3'']),
      (''notes.txt'', [''L6'']),
      (''data_youtube_id_b.jsonl'', [''L5'', ''L6''])]"

section \<open>Merge Engine: the four origins\<close>

text \<open>An exception, by the name of its class.\<close>

datatype exn = Exn string

text \<open>
  \<open>process_excel_data\<close>. A row of the spreadsheet gives the cell of each column it
  has (\<open>None\<close>: the sheet has no such column); cells hold strings or are empty.
  \<open>pd.read_excel\<close> is a parameter: the rows, or the exception it raises.
\<close>

record excel_row =
  xl_label :: "cell option"
  xl_post :: "cell option"

definition excel_label_mapping :: "(string \<times> int) list" where
  "excel_label_mapping =
     [(''anger'', 2), (''disgust'', 2), (''fear'', 2), (''pessimism'', 2), (''sadness'', 2),
      (''happiness'', 1), (''optimism'', 1),
      (''anticipation'', 0), (''confusion'', 0), (''neutral'', 0), (''surprise'', 0)]"

text \<open>\<open>label_mapping.get(str(orig).strip().lower(), 0) if pd.notna(orig) else np.nan\<close>\<close>

definition excel_mapped :: "cell option \<Rightarrow> int option" where
  "excel_mapped orig =
     (case orig of
        Some (Str s) \<Rightarrow> Some (dict_get excel_label_mapping (lower (strip s)) 0)
      | _ \<Rightarrow> None)"

definition excel_processed :: "excel_row \<Rightarrow> row" where
  "excel_processed r =
     \<lparr>source = PStr ''youtube'', source_id = PNaN,
      row_text = (case xl_post r of Some c \<Rightarrow> c | None \<Rightarrow> Str ''''),
      label = excel_mapped (xl_label r)\<rparr>"

definition process_excel_data :: "exn + excel_row list \<Rightarrow> exn + row list" where
  "process_excel_data read_excel =
     (case read_excel of Inl e \<Rightarrow> Inl e | Inr df \<Rightarrow> Inr (map excel_processed df))"

text \<open>
  What \<open>load_dataset\<close> returns: a \<open>DatasetDict\<close> of named splits, a single
  \<open>Dataset\<close>, or an object that is neither and has no \<open>keys\<close>. An item is a dict
  whose fields hold strings.
\<close>

type_synonym item = "(string \<times> string) list"

datatype hf_dataset = DatasetDict "(string \<times> item list) list" | Dataset "item list" | Other_object

text \<open>\<open>a or b or c\<close>, where \<open>item.get(k)\<close> is \<open>None\<close> for an absent key.\<close>

fun first_truthy :: "string option list \<Rightarrow> string option" where
  "first_truthy [] = None"
| "first_truthy (v # vs) =
     (case v of Some s \<Rightarrow> if s \<noteq> [] then Some s else first_truthy vs
              | None \<Rightarrow> first_truthy vs)"

definition arsas_label_mapping :: "(string \<times> int) list" where
  "arsas_label_mapping =
     [(''positive'', 1), (''pos'', 1), (''negative'', 2), (''neg'', 2),
      (''neutral'', 0), (''mixed'', 0)]"

text \<open>\<open>label_mapping.get(str(raw_label).strip().lower(), 0)\<close>\<close>

definition arsas_mapped :: "string \<Rightarrow> int" where
  "arsas_mapped raw_label = dict_get arsas_label_mapping (lower (strip raw_label)) 0"

definition arsas_processed :: "item \<Rightarrow> row" where
  "arsas_processed item =
     (let tweet_id = (case first_truthy [map_of item ''Tweet_ID'', map_of item ''tweet_id'',
                                         map_of item ''id''] of
                        Some s \<Rightarrow> PStr s | None \<Rightarrow> PNaN);
          tweet_text = (case first_truthy [map_of item ''Tweet_text'', map_of item ''tweet_text'',
                                           map_of item ''text''] of
                          Some s \<Rightarrow> s | None \<Rightarrow> '''');
          raw_label = (case first_truthy [map_of item ''label'', map_of item ''sentiment'',
                                          map_of item ''Sentiment_label_confidence''] of
                         Some s \<Rightarrow> s | None \<Rightarrow> '''')
      in \<lparr>source = PStr ''twitter'', source_id = tweet_id, row_text = Str tweet_text,
          label = Some (arsas_mapped raw_label)\<rparr>)"

text \<open>
  \<open>process_arsas_dataset\<close>: an exception of \<open>load_dataset\<close> is printed and raised
  again; an unexpected object raises \<open>RuntimeError\<close>.
\<close>

definition process_arsas_dataset :: "exn + hf_dataset \<Rightarrow> exn + row list" where
  "process_arsas_dataset load_dataset =
     (case load_dataset of
        Inl e \<Rightarrow> Inl e
      | Inr (DatasetDict splits) \<Rightarrow> Inr (concat (map (\<lambda>(split, ds). map arsas_processed ds) splits))
      | Inr (Dataset ds) \<Rightarrow> Inr (map arsas_processed ds)
      | Inr Other_object \<Rightarrow> Inl (Exn ''RuntimeError''))"

definition tsac_label_mapping :: "(string \<times> int) list" where
  "tsac_label_mapping = [(''Positive'', 1), (''Negative'', 2), (''Neutral'', 0)]"

text \<open>\<open>label_mapping.get(label, 0)\<close>\<close>

definition tsac_mapped :: "string \<Rightarrow> int" where
  "tsac_mapped lbl = dict_get tsac_label_mapping lbl 0"

definition tsac_processed :: "item \<Rightarrow> row" where
  "tsac_processed item =
     (let txt = dict_get item ''sentence'' (dict_get item ''text'' (dict_get item ''content'' ''''));
          lbl = dict_get item ''label'' (dict_get item ''sentiment'' '''')
      in \<lparr>source = PStr ''facebook'', source_id = PNaN, row_text = Str txt,
          label = Some (tsac_mapped lbl)\<rparr>)"

text \<open>
  \<open>process_tsac_dataset\<close>: any exception (of \<open>load_dataset\<close>, or of \<open>keys\<close> on
  what is no \<open>DatasetDict\<close>) is printed and an empty table returned.
\<close>

definition process_tsac_dataset :: "exn + hf_dataset \<Rightarrow> row list \<times> msg list" where
  "process_tsac_dataset load_dataset =
     (case load_dataset of
        Inr (DatasetDict splits) \<Rightarrow>
          (let processed_data = concat (map (\<lambda>(split, ds). map tsac_processed ds) splits)
           in (processed_data, [Successfully_processed (length processed_data)]))
      | _ \<Rightarrow> ([], [Error_loading_TSAC]))"

section \<open>Merge Engine: \<open>merge_all_datasets\<close>\<close>

text \<open>\<open>final_df['label'].fillna(0).astype(int)\<close>\<close>

definition fillna :: "row list \<Rightarrow> row list" where
  "fillna df = map (\<lambda>r. r\<lparr>label := Some (case label r of None \<Rightarrow> 0 | Some l \<Rightarrow> l)\<rparr>) df"

text \<open>
  \<open>final_df.drop_duplicates(subset=['text'])\<close>: a row is kept when no earlier row has
  the same cell in the text column (empty cells count as equal).
\<close>

fun drop_duplicates_seen :: "cell list \<Rightarrow> row list \<Rightarrow> row list" where
  "drop_duplicates_seen seen [] = []"
| "drop_duplicates_seen seen (r # rs) =
     (if row_text r \<in> set seen then drop_duplicates_seen seen rs
      else r # drop_duplicates_seen (row_text r # seen) rs)"

definition drop_duplicates :: "row list \<Rightarrow> row list" where
  "drop_duplicates df = drop_duplicates_seen [] df"

text \<open>
  \<open>final_df['text'].str.strip().str.len() > 5\<close>. The \<open>str\<close> accessor raises
  \<open>AttributeError\<close> on a column without a string (a column of empty cells is a float
  column); on an empty cell \<open>len\<close> is \<open>nan\<close> and the comparison false.
\<close>

definition str_accessor_ok :: "row list \<Rightarrow> bool" where
  "str_accessor_ok df = (\<exists>r \<in> set df. row_text r \<noteq> NaN)"

definition long_enough :: "row \<Rightarrow> bool" where
  "long_enough r = (case row_text r of Str s \<Rightarrow> length (strip s) > 5 | NaN \<Rightarrow> False)"

text \<open>What the run depends on.\<close>

record env =
  excel_path_exists :: bool
  read_excel :: "exn + excel_row list"
  load_arsas :: "exn + hf_dataset"
  load_tsac :: "exn + hf_dataset"
  jsonl_directory :: "(string \<times> string list) list option"
  json_loads :: "string \<Rightarrow> pyval option"
  to_excel_ok :: bool
  to_csv_ok :: bool

datatype saved = Xlsx "row list" | Csv "row list"

record result =
  final_df :: "row list"
  written :: "saved option"
  printed :: "msg list"

text \<open>The first part of \<open>merge_all_datasets\<close>: the four tables, in origin order.\<close>

definition load_origins :: "env \<Rightarrow> exn + (row list list \<times> msg list)" where
  "load_origins e =
     (case process_excel_data (read_excel e) of
        Inl x \<Rightarrow> Inl x
      | Inr excel_df \<Rightarrow>
          (case process_arsas_dataset (load_arsas e) of
             Inl x \<Rightarrow> Inl x
           | Inr arsas_df \<Rightarrow>
               (let (tsac_df, m1) = process_tsac_dataset (load_tsac e);
                    (jsonl_df, m2) = process_jsonl_files (json_loads e) (jsonl_directory e)
                in Inr ([excel_df, arsas_df, tsac_df, jsonl_df], m1 @ m2))))"

text \<open>The try around \<open>to_excel\<close>, with \<open>to_csv\<close> as fallback.\<close>

definition save :: "env \<Rightarrow> row list \<Rightarrow> saved option" where
  "save e df = (if to_excel_ok e then Some (Xlsx df)
               else if to_csv_ok e then Some (Csv df) else None)"

definition merge_all_datasets :: "env \<Rightarrow> exn + result" where
  "merge_all_datasets e =
     (case load_origins e of
        Inl x \<Rightarrow> Inl x
      | Inr (dfs, msgs) \<Rightarrow>
          (let all_dfs = filter (\<lambda>df. length df > 0) dfs
           in if all_dfs = []
              then Inr \<lparr>final_df = [], written = None, printed = msgs @ [Error_no_data]\<rparr>
              else (let final_df = drop_duplicates (fillna (concat all_dfs))
                    in if \<not> str_accessor_ok final_df then Inl (Exn ''AttributeError'')
                       else (let final_df = filter long_enough final_df
                             in Inr \<lparr>final_df = final_df, written = save e final_df,
                                     printed = msgs\<rparr>))))"


text \<open>An environment for the examples: a spreadsheet of three rows, both corpora, the
  batch files above.\<close>

definition ex_env :: env where
  "ex_env =
     \<lparr>excel_path_exists = True,
      read_excel = Inr [\<lparr>xl_label = Some (Str ''Happiness''), xl_post = Some (Str '' behi barcha'')\<rparr>,
                        \<lparr>xl_label = Some NaN, xl_post = Some (Str ''mrigel'')\<rparr>,
                        \<lparr>xl_label = Some (Str ''anger''), xl_post = Some NaN\<rparr>],
      load_arsas = Inr (Dataset [[(''Tweet_ID'', ''77''), (''Tweet_text'', ''yesser behi''),
                                  (''label'', '' POSITIVE '')]]),
      load_tsac = Inr (DatasetDict [(''train'', [[(''sentence'', ''ya3tik essa7a''),
                                                  (''label'', ''positive'')]])]),
      jsonl_directory = Some ex_files,
      json_loads = ex_loads,
      to_excel_ok = True,
      to_csv_ok = True\<rparr>"

definition ex_env2 :: env where
  "ex_env2 =
     \<lparr>excel_path_exists = True,
      read_excel = Inr [\<lparr>xl_label = Some (Str ''anger''), xl_post = Some (Str ''mrigel'')\<rparr>,
                        \<lparr>xl_label = Some NaN, xl_post = Some (Str ''mrigel'')\<rparr>,
                        \<lparr>xl_label = Some NaN, xl_post = Some (Str '' behi '')\<rparr>],
      load_arsas = Inr (Dataset []),
      load_tsac = Inl (Exn ''ConnectionError''),
      jsonl_directory = None,
      json_loads = ex_loads,
      to_excel_ok = True,
      to_csv_ok = True\<rparr>"

definition ex_rows2 :: "row list" where
  "ex_rows2 =
     [\<lparr>source = PStr ''youtube'', source_id = PNaN, row_text = Str ''mrigel'', label = Some 2\<rparr>,
      \<lparr>source = PStr ''youtube'', source_id = PNaN, row_text = Str ''mrigel'', label = None\<rparr>,
      \<lparr>source = PStr ''youtube'', source_id = PNaN, row_text = Str '' behi '', label = None\<rparr>]"


section \<open>Configuration: \<open>Config.validate_config\<close>\<close>

text \<open>
  The class attributes of \<open>Config\<close>, each the value of \<open>os.getenv\<close> at import:
  \<open>None\<close> for a variable that is unset.
\<close>

record config =
  YOUTUBE_API_KEY :: "string option"
  TWITTER_API_KEY :: "string option"
  TWITTER_API_SECRET :: "string option"
  TWITTER_ACCESS_TOKEN :: "string option"
  TWITTER_ACCESS_SECRET :: "string option"
  REDDIT_CLIENT_ID :: "string option"
  REDDIT_CLIENT_SECRET :: "string option"
  REDDIT_USER_AGENT :: "string option"

text \<open>Truth value of \<open>str | None\<close>: \<open>None\<close> and the empty string are false.\<close>

definition is_set :: "string option \<Rightarrow> bool" where
  "is_set v = (case v of None \<Rightarrow> False | Some s \<Rightarrow> s \<noteq> [])"

text \<open>The list \<open>missing\<close> that \<open>validate_config\<close> builds.\<close>

definition missing_variables :: "config \<Rightarrow> string list" where
  "missing_variables cls =
     (if \<not> is_set (YOUTUBE_API_KEY cls) then [''YOUTUBE_API_KEY''] else [])
     @ (if \<not> list_all is_set [TWITTER_API_KEY cls, TWITTER_API_SECRET cls,
                                TWITTER_ACCESS_TOKEN cls, TWITTER_ACCESS_SECRET cls]
        then [''TWITTER_API_KEY'', ''TWITTER_API_SECRET'',
              ''TWITTER_ACCESS_TOKEN'', ''TWITTER_ACCESS_SECRET'']
        else [])
     @ (if \<not> list_all is_set [REDDIT_CLIENT_ID cls, REDDIT_CLIENT_SECRET cls, REDDIT_USER_AGENT cls]
        then [''REDDIT_CLIENT_ID'', ''REDDIT_CLIENT_SECRET'', ''REDDIT_USER_AGENT'']
        else [])"

text \<open>\<open>Inl\<close> is the message of the \<open>ValueError\<close> raised.\<close>

definition validate_config :: "config \<Rightarrow> string + unit" where
  "validate_config cls =
     (let missing = missing_variables cls
      in if missing \<noteq> []
         then Inl (''Missing environment variables: '' @ join '', '' missing)
         else Inr ())"

text \<open>The required variables, by name.\<close>

definition required_variables :: "config \<Rightarrow> (string \<times> string option) list" where
  "required_variables cls =
     [(''YOUTUBE_API_KEY'', YOUTUBE_API_KEY cls),
      (''TWITTER_API_KEY'', TWITTER_API_KEY cls),
      (''TWITTER_API_SECRET'', TWITTER_API_SECRET cls),
      (''TWITTER_ACCESS_TOKEN'', TWITTER_ACCESS_TOKEN cls),
      (''TWITTER_ACCESS_SECRET'', TWITTER_ACCESS_SECRET cls),
      (''REDDIT_CLIENT_ID'', REDDIT_CLIENT_ID cls),
      (''REDDIT_CLIENT_SECRET'', REDDIT_CLIENT_SECRET cls),
      (''REDDIT_USER_AGENT'', REDDIT_USER_AGENT cls)]"

section \<open>Collection Session: \<open>collect.main\<close>\<close>

record args =
  args_platform :: string
  args_mode :: string
  args_limit :: int
  args_video_id :: "string option"
  args_username :: "string option"
  args_tweet_id :: "string option"
  args_post_id :: "string option"
  args_keywords :: "string list option"
  args_subreddit :: "string option"

definition validate_args :: "args \<Rightarrow> bool \<times> string list" where
  "validate_args a =
     (let errors1 =
            (if args_mode a = ''id'' then
               (if args_platform a = ''youtube'' \<and> \<not> is_set (args_video_id a)
                then [''--video-id required for YouTube in ID mode'']
                else if args_platform a = ''twitter'' \<and> \<not> is_set (args_username a) \<and> \<not> is_set (args_tweet_id a)
                then [''--username or --tweet-id required for Twitter in ID mode'']
                else if args_platform a = ''reddit'' \<and> \<not> is_set (args_post_id a)
                then [''--post-id required for Reddit in ID mode'']
                else [])
             else []);
          errors2 =
            (if args_mode a = ''keywords'' then
               (if args_keywords a = None \<or> args_keywords a = Some []
                then [''--keywords required for keywords mode''] else [])
               @ (if args_platform a = ''reddit'' \<and> \<not> is_set (args_subreddit a)
                  then [''--subreddit recommended for Reddit keywords mode''] else [])
             else []);
          errors = errors1 @ errors2
      in if errors \<noteq> [] then (False, errors) else (True, []))"

text \<open>
  What \<open>main\<close> does, in order, and the exit status. \<open>Construct\<close> is
  \<open>get_collector(platform)\<close>; \<open>Collected\<close> is the call of \<open>collect_data\<close>, the
  only place where an adapter authenticates and talks to its platform, with the number
  of records it returned (a parameter here; \<open>collect_data\<close> catches every exception).
\<close>

datatype event =
    Argument_errors "string list"
  | Configuration_error string
  | Mkdir_collected_data
  | Construct string
  | Collected string nat
  | Save_data string
  | No_data_collected string
  | Summary nat

fun run_platforms :: "(string \<Rightarrow> nat) \<Rightarrow> string list \<Rightarrow> event list \<times> nat list" where
  "run_platforms collect_data [] = ([], [])"
| "run_platforms collect_data (p # ps) =
     (let collected_count = collect_data p;
          (evs, all_stats) = run_platforms collect_data ps
      in if collected_count > 0
         then ([Construct p, Collected p collected_count, Save_data p] @ evs,
               collected_count # all_stats)
         else ([Construct p, Collected p collected_count, No_data_collected p] @ evs, all_stats))"

definition collect_main :: "args \<Rightarrow> config \<Rightarrow> (string \<Rightarrow> nat) \<Rightarrow> event list \<times> nat" where
  "collect_main a cls collect_data =
     (case validate_args a of
        (False, errors) \<Rightarrow> ([Argument_errors errors], 1)
      | (True, _) \<Rightarrow>
          (case validate_config cls of
             Inl e \<Rightarrow> ([Configuration_error e], 1)
           | Inr _ \<Rightarrow>
               (let platforms = (if args_platform a \<noteq> ''all'' then [args_platform a]
                                 else [''youtube'', ''twitter'', ''reddit'']);
                    (evs, all_stats) = run_platforms collect_data platforms
                in ([Mkdir_collected_data] @ evs
                      @ (if all_stats \<noteq> [] then [Summary (sum_list all_stats)] else []), 0))))"

definition ex_config :: config where
  "ex_config =
     \<lparr>YOUTUBE_API_KEY = None,
      TWITTER_API_KEY = Some ''k'', TWITTER_API_SECRET = Some ''s'',
      TWITTER_ACCESS_TOKEN = Some ''t'', TWITTER_ACCESS_SECRET = Some ''a'',
      REDDIT_CLIENT_ID = Some ''id'', REDDIT_CLIENT_SECRET = None,
      REDDIT_USER_AGENT = Some ''agent''\<rparr>"

definition ex_args :: args where
  "ex_args =
     \<lparr>args_platform = ''all'', args_mode = ''keywords'', args_limit = 100, args_video_id = None,
      args_username = None, args_tweet_id = None, args_post_id = None,
      args_keywords = Some [''tounes''], args_subreddit = Some ''all''\<rparr>"

section \<open>Source adapters\<close>

text \<open>
  A Collected Record. The fields the adapters copy from the platform and never read
  again (timestamps, like, score and reply counts, parent links) are left out;
  \<open>container_id\<close> is \<open>video_id\<close>, \<open>tweet_id\<close> or \<open>thread_id\<close>.
\<close>

record collected =
  rec_source :: string
  rec_id :: string
  rec_text_raw :: string
  rec_user :: string
  container_id :: "string option"
  collection_method :: "string option"
  search_keywords :: "string list option"
  search_subreddit :: "string option"

text \<open>\<open>BaseCollector\<close>: whether the client handle is set, and \<open>collected_data\<close>.\<close>

record collector =
  authenticated :: bool
  collected_data :: "collected list"

text \<open>\<open>xs[:n]\<close>\<close>

definition py_take :: "int \<Rightarrow> 'a list \<Rightarrow> 'a list" where
  "py_take n xs = (if 0 \<le> n then take (nat n) xs else take (length xs - nat (- n)) xs)"

subsection \<open>\<open>YouTubeCollector\<close>\<close>

text \<open>
  The platform is a parameter: what \<open>commentThreads().list(videoId, maxResults,
  pageToken).execute()\<close> and \<open>search().list(q, maxResults).execute()\<close> return or
  raise, and whether \<open>authenticate\<close> succeeds. \<open>Bad_thread\<close> and \<open>Bad_video\<close> are
  items on which a subscript of the code raises.
\<close>

datatype yt_thread = Thread string string string | Bad_thread

record yt_response =
  items :: "yt_thread list"
  nextPageToken :: "string option"

datatype yt_video = Video string | Bad_video

record yt_api =
  yt_authenticate :: bool
  commentThreads_list :: "string \<Rightarrow> int \<Rightarrow> string option \<Rightarrow> exn + yt_response"
  search_list :: "string \<Rightarrow> int \<Rightarrow> exn + yt_video list"

definition yt_comment_data :: "string \<Rightarrow> string \<Rightarrow> string \<Rightarrow> string \<Rightarrow> collected" where
  "yt_comment_data video_id i txt usr =
     \<lparr>rec_source = ''youtube'', rec_id = i, rec_text_raw = txt, rec_user = usr,
      container_id = Some video_id, collection_method = Some ''direct_id'',
      search_keywords = None, search_subreddit = None\<rparr>"

text \<open>
  The \<open>for\<close> over the items of one page: the new \<open>total_collected\<close> and
  \<open>comments\<close>, and whether an item raised.
\<close>

fun page_items ::
  "string \<Rightarrow> int \<Rightarrow> yt_thread list \<Rightarrow> int \<Rightarrow> collected list \<Rightarrow> int \<times> collected list \<times> bool" where
  "page_items video_id max_results [] total_collected comments = (total_collected, comments, False)"
| "page_items video_id max_results (Bad_thread # rest) total_collected comments =
     (total_collected, comments, True)"
| "page_items video_id max_results (Thread i txt usr # rest) total_collected comments =
     (if total_collected + 1 \<ge> max_results
      then (total_collected + 1, comments @ [yt_comment_data video_id i txt usr], False)
      else page_items video_id max_results rest (total_collected + 1)
             (comments @ [yt_comment_data video_id i txt usr]))"

lemma page_items_total:
  "page_items video_id max_results its total_collected comments = (t, c, raised) \<Longrightarrow>
   total_collected \<le> t \<and> (its \<noteq> [] \<and> \<not> raised \<longrightarrow> total_collected < t)"
proof (induction video_id max_results its total_collected comments rule: page_items.induct)
  case (1 video_id max_results total_collected comments)
  then show ?case by simp
next
  case (2 video_id max_results rest total_collected comments)
  then show ?case by simp
next
  case (3 video_id max_results cid body author rest total_collected comments)
  then show ?case by (cases "total_collected + 1 \<ge> max_results") auto
qed

text \<open>
  The \<open>while\<close> of \<open>_get_video_comments\<close>. Every exit (quota reached, an exception,
  an empty page, no further page token) returns \<open>comments\<close>.
\<close>

function get_video_comments_loop ::
  "yt_api \<Rightarrow> string \<Rightarrow> int \<Rightarrow> string option \<Rightarrow> int \<Rightarrow> collected list \<Rightarrow> collected list" where
  "get_video_comments_loop api video_id max_results next_page_token total_collected comments =
     (if total_collected < max_results then
        (case commentThreads_list api video_id (min 100 (max_results - total_collected))
                next_page_token of
           Inl e \<Rightarrow> comments
         | Inr response \<Rightarrow>
             (if items response = [] then comments
              else (case page_items video_id max_results (items response) total_collected comments of
                      (t, c, raised) \<Rightarrow>
                        (if raised then c
                         else (case nextPageToken response of
                                 None \<Rightarrow> c
                               | Some tok \<Rightarrow>
                                   (if tok = [] then c
                                    else get_video_comments_loop api video_id max_results
                                           (Some tok) t c))))))
      else comments)"
  by pat_completeness auto
termination
proof (relation "measure (\<lambda>(api, video_id, max_results, tok, total_collected, comments).
                            nat (max_results - total_collected))")
  show "wf (measure (\<lambda>(api, video_id, max_results, tok, total_collected, comments).
                            nat (max_results - total_collected)))"
    by simp
next
  fix api :: yt_api and video_id max_results next_page_token total_collected
    and comments :: "collected list" and response x t y c raised tok
  assume "total_collected < max_results"
    and "items response \<noteq> []"
    and "(t, y) = page_items video_id max_results (items response) total_collected comments"
    and "(c, raised) = y" and "\<not> raised"
  then have "total_collected < t"
    using page_items_total [of video_id max_results "items response" total_collected comments t c raised]
    by simp
  with \<open>total_collected < max_results\<close>
  show "((api, video_id, max_results, Some tok, t, c),
         (api, video_id, max_results, next_page_token, total_collected, comments))
        \<in> measure (\<lambda>(api, video_id, max_results, tok, total_collected, comments).
                      nat (max_results - total_collected))"
    by simp
qed

definition get_video_comments :: "yt_api \<Rightarrow> string \<Rightarrow> int \<Rightarrow> collected list" where
  "get_video_comments api video_id max_results =
     get_video_comments_loop api video_id max_results None 0 []"

definition yt_collect_by_id ::
  "yt_api \<Rightarrow> collector \<Rightarrow> string \<Rightarrow> int \<Rightarrow> collected list \<times> collector" where
  "yt_collect_by_id api self video_id limit =
     (if \<not> authenticated self \<and> \<not> yt_authenticate api then ([], self)
      else (let comments = get_video_comments api video_id limit
            in (comments, self\<lparr>authenticated := True,
                               collected_data := collected_data self @ comments\<rparr>)))"

text \<open>The \<open>for\<close> over the items of one search response.\<close>

fun found_videos :: "int \<Rightarrow> yt_video list \<Rightarrow> string list \<Rightarrow> string list" where
  "found_videos max_videos [] video_ids = video_ids"
| "found_videos max_videos (Bad_video # rest) video_ids = video_ids"
| "found_videos max_videos (Video v # rest) video_ids =
     (if int (length (video_ids @ [v])) \<ge> max_videos then video_ids @ [v]
      else found_videos max_videos rest (video_ids @ [v]))"

fun search_videos_by_keywords :: "yt_api \<Rightarrow> string list \<Rightarrow> int \<Rightarrow> string list \<Rightarrow> string list" where
  "search_videos_by_keywords api [] max_videos video_ids = video_ids"
| "search_videos_by_keywords api (keyword # rest) max_videos video_ids =
     search_videos_by_keywords api rest max_videos
       (case search_list api keyword (min 50 (max_videos - int (length video_ids))) of
          Inl e \<Rightarrow> video_ids
        | Inr its \<Rightarrow> found_videos max_videos its video_ids)"

definition keyword_search :: "string list \<Rightarrow> collected \<Rightarrow> collected" where
  "keyword_search keywords comment =
     comment\<lparr>collection_method := Some ''keyword_search'', search_keywords := Some keywords\<rparr>"

text \<open>The \<open>for video_id in video_ids\<close> of \<open>_search_and_collect\<close>.\<close>

fun yt_collect_videos ::
  "yt_api \<Rightarrow> string list \<Rightarrow> int \<Rightarrow> int \<Rightarrow> string list \<Rightarrow> collected list \<Rightarrow> collected list" where
  "yt_collect_videos api keywords comments_per_video limit [] comments = comments"
| "yt_collect_videos api keywords comments_per_video limit (video_id # rest) comments =
     (if int (length comments) \<ge> limit then comments
      else yt_collect_videos api keywords comments_per_video limit rest
             (comments @ map (keyword_search keywords)
                           (get_video_comments api video_id comments_per_video)))"

definition yt_search_and_collect :: "yt_api \<Rightarrow> string list \<Rightarrow> int \<Rightarrow> collected list" where
  "yt_search_and_collect api keywords limit =
     (let video_ids = search_videos_by_keywords api keywords 10 []
      in if video_ids = [] then []
         else (let comments_per_video = max 1 (limit div int (length video_ids))
               in yt_collect_videos api keywords comments_per_video limit video_ids []))"

definition yt_collect_by_keywords ::
  "yt_api \<Rightarrow> collector \<Rightarrow> string list \<Rightarrow> int \<Rightarrow> collected list \<times> collector" where
  "yt_collect_by_keywords api self keywords limit =
     (if \<not> authenticated self \<and> \<not> yt_authenticate api then ([], self)
      else (let comments = yt_search_and_collect api keywords limit
            in (comments, self\<lparr>authenticated := True,
                               collected_data := collected_data self @ comments\<rparr>)))"

subsection \<open>\<open>RedditCollector\<close>\<close>

text \<open>
  A submission as the code reads it: \<open>removed_by_category\<close> and the comment forest
  flattened by \<open>replace_more(limit=0)\<close> and \<open>comments.list()\<close>. A comment has an id,
  a body unless it lacks the attribute, and an author; \<open>Bad_comment\<close> is one on which an
  attribute access raises. A post of a search result has an id, a title and a selftext.
\<close>

datatype rd_comment = Comment string "string option" "string option" | Bad_comment

record rd_submission =
  removed_by_category :: "string option"
  comments_list :: "rd_comment list"

datatype rd_post = Post string string string | Bad_post

record rd_api =
  rd_authenticate :: bool
  submission :: "string \<Rightarrow> exn + rd_submission"
  subreddit_search :: "string \<Rightarrow> string \<Rightarrow> int \<Rightarrow> exn + rd_post list"

definition rd_comment_data ::
  "string \<Rightarrow> string option \<Rightarrow> string \<Rightarrow> string \<Rightarrow> string option \<Rightarrow> collected" where
  "rd_comment_data post_id how i body author =
     \<lparr>rec_source = ''reddit'', rec_id = i, rec_text_raw = body,
      rec_user = (case author of Some a \<Rightarrow> a | None \<Rightarrow> ''[deleted]''),
      container_id = Some post_id, collection_method = how,
      search_keywords = None, search_subreddit = None\<rparr>"

text \<open>
  The \<open>for comment in comment_list\<close> of both \<open>collect_by_id\<close> and
  \<open>_get_post_comments\<close>: the comments built, and whether a comment raised.
\<close>

fun build_comments ::
  "string \<Rightarrow> string option \<Rightarrow> rd_comment list \<Rightarrow> collected list \<Rightarrow> collected list \<times> bool" where
  "build_comments post_id how [] comments = (comments, False)"
| "build_comments post_id how (Bad_comment # rest) comments = (comments, True)"
| "build_comments post_id how (Comment i body author # rest) comments =
     (case body of
        Some b \<Rightarrow>
          (if b \<notin> set [''[deleted]'', ''[removed]'']
           then build_comments post_id how rest
                  (comments @ [rd_comment_data post_id how i b author])
           else build_comments post_id how rest comments)
      | None \<Rightarrow> build_comments post_id how rest comments)"

text \<open>
  \<open>collect_by_id\<close>: a removed post and every exception give \<open>[]\<close>, and then
  \<open>collected_data\<close> is not extended.
\<close>

definition rd_collect_by_id ::
  "rd_api \<Rightarrow> collector \<Rightarrow> string \<Rightarrow> int \<Rightarrow> collected list \<times> collector" where
  "rd_collect_by_id api self post_id limit =
     (if \<not> authenticated self \<and> \<not> rd_authenticate api then ([], self)
      else (let self = self\<lparr>authenticated := True\<rparr>
            in case submission api post_id of
                 Inl e \<Rightarrow> ([], self)
               | Inr sub \<Rightarrow>
                   (if is_set (removed_by_category sub) then ([], self)
                    else (let comment_list = py_take limit (comments_list sub)
                          in case build_comments post_id (Some ''direct_post_id'') comment_list [] of
                               (comments, True) \<Rightarrow> ([], self)
                             | (comments, False) \<Rightarrow>
                                 (comments,
                                  self\<lparr>collected_data := collected_data self @ comments\<rparr>)))))"

text \<open>\<open>_get_post_comments\<close>: an exception leaves the comments built so far.\<close>

definition get_post_comments :: "rd_api \<Rightarrow> string \<Rightarrow> int \<Rightarrow> collected list" where
  "get_post_comments api post_id max_comments =
     (case submission api post_id of
        Inl e \<Rightarrow> []
      | Inr sub \<Rightarrow> fst (build_comments post_id None (py_take max_comments (comments_list sub)) []))"

text \<open>
  \<open>_search_subreddit_posts\<close>, as far as its caller reads the result: the ids of the
  posts kept. One \<open>try\<close> is around the whole loop over the keywords.
\<close>

fun kept_posts :: "rd_post list \<Rightarrow> string list \<Rightarrow> string list \<times> bool" where
  "kept_posts [] posts_data = (posts_data, False)"
| "kept_posts (Bad_post # rest) posts_data = (posts_data, True)"
| "kept_posts (Post i title selftext # rest) posts_data =
     (if selftext \<notin> set [''[deleted]'', ''[removed]'']
      then kept_posts rest (posts_data @ [i])
      else kept_posts rest posts_data)"

fun search_subreddit_posts_loop ::
  "rd_api \<Rightarrow> string \<Rightarrow> int \<Rightarrow> string list \<Rightarrow> string list \<Rightarrow> string list" where
  "search_subreddit_posts_loop api subreddit_name per_keyword [] posts_data = posts_data"
| "search_subreddit_posts_loop api subreddit_name per_keyword (keyword # rest) posts_data =
     (case subreddit_search api subreddit_name keyword per_keyword of
        Inl e \<Rightarrow> posts_data
      | Inr posts \<Rightarrow>
          (case kept_posts posts posts_data of
             (posts_data', True) \<Rightarrow> posts_data'
           | (posts_data', False) \<Rightarrow>
               search_subreddit_posts_loop api subreddit_name per_keyword rest posts_data'))"

definition search_subreddit_posts :: "rd_api \<Rightarrow> string \<Rightarrow> string list \<Rightarrow> int \<Rightarrow> string list" where
  "search_subreddit_posts api subreddit_name keywords max_posts =
     search_subreddit_posts_loop api subreddit_name (max_posts div int (length keywords))
       keywords []"

fun rd_collect_posts :: "rd_api \<Rightarrow> int \<Rightarrow> int \<Rightarrow> string list \<Rightarrow> collected list \<Rightarrow> collected list" where
  "rd_collect_posts api comments_per_post limit [] comments = comments"
| "rd_collect_posts api comments_per_post limit (post # rest) comments =
     (if int (length comments) \<ge> limit then comments
      else rd_collect_posts api comments_per_post limit rest
             (comments @ get_post_comments api post comments_per_post))"

definition rd_search_and_collect :: "rd_api \<Rightarrow> string \<Rightarrow> string list \<Rightarrow> int \<Rightarrow> collected list" where
  "rd_search_and_collect api subreddit_name keywords limit =
     (let posts = search_subreddit_posts api subreddit_name keywords (limit div 10);
          comments_per_post = (if posts \<noteq> [] then max 1 (limit div int (length posts)) else 0)
      in rd_collect_posts api comments_per_post limit posts [])"

definition rd_collect_by_keywords ::
  "rd_api \<Rightarrow> collector \<Rightarrow> string list \<Rightarrow> int \<Rightarrow> string \<Rightarrow> collected list \<times> collector" where
  "rd_collect_by_keywords api self keywords limit subreddit =
     (if \<not> authenticated self \<and> \<not> rd_authenticate api then ([], self)
      else (let comments = map (\<lambda>comment. comment\<lparr>collection_method := Some ''keyword_search'',
                                                  search_keywords := Some keywords,
                                                  search_subreddit := Some subreddit\<rparr>)
                             (rd_search_and_collect api subreddit keywords limit)
            in (comments, self\<lparr>authenticated := True,
                               collected_data := collected_data self @ comments\<rparr>)))"

subsection \<open>\<open>TwitterCollector\<close>\<close>

text \<open>
  What a \<open>tweepy.Cursor\<close> yields, in order: tweets, or \<open>Raises\<close> where the iteration
  (or the reading of a tweet) raises. \<open>Cursor.items(n)\<close> stops once it has yielded
  \<open>n\<close> items.
\<close>

record tweet =
  id_str :: string
  full_text :: string
  screen_name :: string
  in_reply_to_status_id_str :: "string option"
  in_reply_to_user_id_str :: "string option"

datatype tw_elem = Tweet tweet | Raises

record tw_status =
  status_id_str :: string
  status_user_id_str :: string

record tw_api =
  tw_authenticate :: bool
  get_status :: "string \<Rightarrow> exn + tw_status"
  search_tweets :: "string \<Rightarrow> tw_elem list"
  user_timeline :: "string \<Rightarrow> tw_elem list"

definition cursor_items :: "int \<Rightarrow> tw_elem list \<Rightarrow> tw_elem list" where
  "cursor_items n xs = take (nat n) xs"

definition tweet_data :: "string option \<Rightarrow> tweet \<Rightarrow> collected" where
  "tweet_data container tw =
     \<lparr>rec_source = ''twitter'', rec_id = id_str tw, rec_text_raw = full_text tw,
      rec_user = screen_name tw, container_id = container, collection_method = None,
      search_keywords = None, search_subreddit = None\<rparr>"

text \<open>
  A \<open>for tweet in Cursor(...).items(n)\<close> inside a \<open>try\<close>: the tweets that pass
  \<open>keep\<close> are appended until the iteration ends or raises.
\<close>

fun append_tweets ::
  "(tweet \<Rightarrow> bool) \<Rightarrow> string option \<Rightarrow> tw_elem list \<Rightarrow> collected list \<Rightarrow> collected list" where
  "append_tweets keep container [] tweets = tweets"
| "append_tweets keep container (Raises # rest) tweets = tweets"
| "append_tweets keep container (Tweet tw # rest) tweets =
     append_tweets keep container rest
       (if keep tw then tweets @ [tweet_data container tw] else tweets)"

definition get_tweet_replies :: "tw_api \<Rightarrow> string \<Rightarrow> int \<Rightarrow> collected list" where
  "get_tweet_replies api tweet_id max_replies =
     (case get_status api tweet_id of
        Inl e \<Rightarrow> []
      | Inr original_tweet \<Rightarrow>
          append_tweets
            (\<lambda>tw. in_reply_to_status_id_str tw = Some tweet_id
                   \<or> in_reply_to_user_id_str tw = Some (status_user_id_str original_tweet))
            (Some tweet_id)
            (cursor_items max_replies
               (search_tweets api (''conversation_id:'' @ status_id_str original_tweet)))
            [])"

definition get_user_tweets :: "tw_api \<Rightarrow> string \<Rightarrow> int \<Rightarrow> collected list" where
  "get_user_tweets api username max_tweets =
     append_tweets (\<lambda>tw. True) None (cursor_items max_tweets (user_timeline api username)) []"

fun search_tweets_by_keywords :: "tw_api \<Rightarrow> string list \<Rightarrow> int \<Rightarrow> collected list \<Rightarrow> collected list" where
  "search_tweets_by_keywords api [] max_tweets tweets = tweets"
| "search_tweets_by_keywords api (keyword # rest) max_tweets tweets =
     search_tweets_by_keywords api rest max_tweets
       (append_tweets (\<lambda>tw. True) None (cursor_items max_tweets (search_tweets api keyword)) tweets)"

definition tw_collect_by_id ::
  "tw_api \<Rightarrow> collector \<Rightarrow> string \<Rightarrow> int \<Rightarrow> string \<Rightarrow> collected list \<times> collector" where
  "tw_collect_by_id api self identifier limit id_type =
     (if \<not> authenticated self \<and> \<not> tw_authenticate api then ([], self)
      else (let self = self\<lparr>authenticated := True\<rparr>
            in if id_type = ''username''
               then (let comments = map (\<lambda>c. c\<lparr>collection_method := Some ''direct_username''\<rparr>)
                                      (get_user_tweets api identifier limit)
                     in (comments, self\<lparr>collected_data := collected_data self @ comments\<rparr>))
               else if id_type = ''tweet_id''
               then (let comments = map (\<lambda>c. c\<lparr>collection_method := Some ''direct_tweet_id''\<rparr>)
                                      (get_tweet_replies api identifier limit)
                     in (comments, self\<lparr>collected_data := collected_data self @ comments\<rparr>))
               else ([], self)))"

definition tw_collect_by_keywords ::
  "tw_api \<Rightarrow> collector \<Rightarrow> string list \<Rightarrow> int \<Rightarrow> collected list \<times> collector" where
  "tw_collect_by_keywords api self keywords limit =
     (if \<not> authenticated self \<and> \<not> tw_authenticate api then ([], self)
      else (let comments = map (keyword_search keywords)
                             (search_tweets_by_keywords api keywords limit [])
            in (comments, self\<lparr>authenticated := True,
                               collected_data := collected_data self @ comments\<rparr>)))"

text \<open>Platforms for the examples.\<close>

definition new_collector :: collector where
  "new_collector = \<lparr>authenticated = False, collected_data = []\<rparr>"

definition ex_yt_api :: yt_api where
  "ex_yt_api =
     \<lparr>yt_authenticate = True,
      commentThreads_list =
        (\<lambda>video_id max_results page_token.
           Inr \<lparr>items = [Thread ''y1'' '''' ''u1'', Thread ''y2'' ''3asslema'' ''u2''],
                nextPageToken = Some ''next''\<rparr>),
      search_list = (\<lambda>q max_results. Inr [Video ''v1'', Video ''v2''])\<rparr>"

definition ex_rd_api :: rd_api where
  "ex_rd_api =
     \<lparr>rd_authenticate = True,
      submission =
        (\<lambda>post_id. Inr \<lparr>removed_by_category = None,
                         comments_list = [Comment ''k1'' (Some ''marhba'') (Some ''u1''),
                                          Comment ''k2'' (Some ''behi'') None,
                                          Comment ''k3'' (Some ''[deleted]'') None]\<rparr>),
      subreddit_search = (\<lambda>subreddit_name keyword n. Inr [Post ''p1'' ''title'' ''body''])\<rparr>"

definition ex_tweet :: "string \<Rightarrow> string \<Rightarrow> tw_elem" where
  "ex_tweet i t =
     Tweet \<lparr>id_str = i, full_text = t, screen_name = ''someone'',
            in_reply_to_status_id_str = Some ''100'', in_reply_to_user_id_str = None\<rparr>"

definition ex_tw_api :: tw_api where
  "ex_tw_api =
     \<lparr>tw_authenticate = True,
      get_status = (\<lambda>i. Inr \<lparr>status_id_str = i, status_user_id_str = ''u9''\<rparr>),
      search_tweets = (\<lambda>q. [ex_tweet ''t1'' (''aslema '' @ q), ex_tweet ''t2'' (''behi '' @ q)]),
      user_timeline = (\<lambda>u. [ex_tweet ''t3'' ''sbah el khir'', Raises, ex_tweet ''t4'' ''never read''])\<rparr>"

text \<open>
  The platform returned no empty id and no empty text: the condition under which the
  records of an adapter have none.
\<close>

definition yt_upstream_nonempty :: "yt_api \<Rightarrow> bool" where
  "yt_upstream_nonempty api =
     (\<forall>video_id n tok response i t u.
        commentThreads_list api video_id n tok = Inr response \<longrightarrow>
        Thread i t u \<in> set (items response) \<longrightarrow> i \<noteq> [] \<and> t \<noteq> [])"

definition rd_upstream_nonempty :: "rd_api \<Rightarrow> bool" where
  "rd_upstream_nonempty api =
     (\<forall>post_id sub i b a.
        submission api post_id = Inr sub \<longrightarrow>
        Comment i (Some b) a \<in> set (comments_list sub) \<longrightarrow> i \<noteq> [] \<and> b \<noteq> [])"

definition tw_upstream_nonempty :: "tw_api \<Rightarrow> bool" where
  "tw_upstream_nonempty api =
     (\<forall>q tw. Tweet tw \<in> set (search_tweets api q) \<union> set (user_timeline api q) \<longrightarrow>
             id_str tw \<noteq> [] \<and> full_text tw \<noteq> [])"

definition nonempty_record :: "collected \<Rightarrow> bool" where
  "nonempty_record r = (rec_id r \<noteq> [] \<and> rec_text_raw r \<noteq> [])"

definition ex_yt_api_nonempty :: yt_api where
  "ex_yt_api_nonempty =
     ex_yt_api\<lparr>commentThreads_list :=
        (\<lambda>video_id max_results page_token.
           Inr \<lparr>items = [Thread ''y1'' ''barcha'' ''u1'', Bad_thread, Thread ''y2'' ''3asslema'' ''u2''],
                nextPageToken = None\<rparr>)\<rparr>"






section \<open>Properties of Python strings\<close>

lemma rstrip_prefix: "\<exists>w. s = rstrip s @ w"
proof -
  have "rev (dropWhile isspace (rev s)) @ rev (takeWhile isspace (rev s))
          = rev (takeWhile isspace (rev s) @ dropWhile isspace (rev s))"
    by (simp only: rev_append)
  also have "\<dots> = s" by (simp only: takeWhile_dropWhile_id rev_rev_ident)
  finally have "s = rstrip s @ rev (takeWhile isspace (rev s))" by (simp add: rstrip_def)
  then show ?thesis ..
qed

lemma lstrip_head: "lstrip s \<noteq> [] \<Longrightarrow> \<not> isspace (hd (lstrip s))"
  unfolding lstrip_def by (rule hd_dropWhile)

lemma lstrip_fixed: "s = [] \<or> \<not> isspace (hd s) \<Longrightarrow> lstrip s = s"
  by (cases s) (auto simp: lstrip_def)

lemma rstrip_idem: "rstrip (rstrip s) = rstrip s"
  by (simp add: rstrip_def dropWhile_idem)

lemma lstrip_strip: "lstrip (strip s) = strip s"
proof (rule lstrip_fixed)
  obtain w where w: "lstrip s = strip s @ w"
    using rstrip_prefix [of "lstrip s"] by (auto simp: strip_def)
  show "strip s = [] \<or> \<not> isspace (hd (strip s))"
  proof (cases "strip s = []")
    case True then show ?thesis by simp
  next
    case False
    with w have "lstrip s \<noteq> []" and "hd (lstrip s) = hd (strip s)" by auto
    then show ?thesis using lstrip_head [of s] by simp
  qed
qed

lemma strip_strip: "strip (strip s) = strip s"
proof -
  have "strip (strip s) = rstrip (strip s)" by (simp add: strip_def [of "strip s"] lstrip_strip)
  also have "\<dots> = strip s" by (simp add: strip_def rstrip_idem)
  finally show ?thesis .
qed

section \<open>Properties of the Dataset Normalizer\<close>

lemma try_line_Row:
  "try_line loads lbl line = Row r \<Longrightarrow> \<exists>s. row_text r = Str s \<and> s \<noteq> [] \<and> strip s = s"
  by (auto simp: try_line_def Let_def strip_strip split: option.splits pyval.splits if_splits)

lemma line_rows_text:
  "r \<in> set (line_rows loads lbl line) \<Longrightarrow> \<exists>s. row_text r = Str s \<and> s \<noteq> [] \<and> strip s = s"
  by (cases "try_line loads lbl line") (auto simp: line_rows_def dest: try_line_Row)

lemma line_step_data:
  "processed_data (line_step loads lbl f n l st) = processed_data st @ line_rows loads lbl l"
  by (simp add: line_step_def line_rows_def split: line_result.splits)

lemma process_lines_data:
  "processed_data (process_lines loads lbl f n ls st)
     = processed_data st @ concat (map (line_rows loads lbl) ls)"
  by (induction ls arbitrary: n st) (simp_all add: line_step_data)

lemma process_files_data:
  "processed_data (process_files loads lbl fs st)
     = processed_data st @ concat (map (file_rows loads lbl) fs)"
  by (induction fs arbitrary: st) (auto simp: process_lines_data file_rows_def)

lemma process_jsonl_files_with_rows:
  "fst (process_jsonl_files_with lbl loads (Some files)) = concat (map (file_rows loads lbl) files)"
  by (simp add: process_jsonl_files_with_def Let_def process_files_data)

lemma process_jsonl_files_with_text:
  assumes "r \<in> set (fst (process_jsonl_files_with lbl loads dir))"
  shows "\<exists>s. row_text r = Str s \<and> s \<noteq> [] \<and> strip s = s"
proof (cases dir)
  case None
  with assms show ?thesis by (simp add: process_jsonl_files_with_def)
next
  case (Some files)
  with assms obtain f ls l where "r \<in> set (line_rows loads lbl l)"
    by (auto simp: process_jsonl_files_with_rows file_rows_def split: if_splits)
  then show ?thesis by (rule line_rows_text)
qed

lemma line_step_logged: "set (logged st) \<subseteq> set (logged (line_step loads lbl f n l st))"
  by (auto simp: line_step_def split: line_result.splits)

lemma process_lines_logged_mono:
  "set (logged st) \<subseteq> set (logged (process_lines loads lbl f n ls st))"
proof (induction ls arbitrary: n st)
  case Nil show ?case by simp
next
  case (Cons l ls)
  show ?case
    using line_step_logged [of st loads lbl f n l]
      Cons [where n = "Suc n" and st = "line_step loads lbl f n l st"]
    by simp
qed

lemma process_files_logged_mono:
  "set (logged st) \<subseteq> set (logged (process_files loads lbl fs st))"
proof (induction fs arbitrary: st)
  case Nil show ?case by simp
next
  case (Cons a fs)
  obtain f ls where a: "a = (f, ls)" by (cases a)
  show ?case
  proof (cases "endswith f ''.jsonl''")
    case False then show ?thesis using Cons [of st] a by simp
  next
    case True
    let ?st1 = "st\<lparr>jsonl_files_found := True, logged := logged st @ [Processing f]\<rparr>"
    have "set (logged st) \<subseteq> set (logged ?st1)" by auto
    also have "\<dots> \<subseteq> set (logged (process_lines loads lbl f 1 ls ?st1))"
      by (rule process_lines_logged_mono)
    also have "\<dots> \<subseteq> set (logged (process_files loads lbl fs (process_lines loads lbl f 1 ls ?st1)))"
      by (rule Cons)
    finally show ?thesis using True a by simp
  qed
qed

lemma line_step_malformed:
  "loads (strip l) = None \<Longrightarrow> Error_parsing_JSON f n \<in> set (logged (line_step loads lbl f n l st))"
  by (simp add: line_step_def try_line_def)

lemma process_lines_malformed:
  "i < length ls \<Longrightarrow> loads (strip (ls ! i)) = None \<Longrightarrow>
   Error_parsing_JSON f (n + i) \<in> set (logged (process_lines loads lbl f n ls st))"
proof (induction ls arbitrary: n i st)
  case Nil then show ?case by simp
next
  case (Cons l ls)
  show ?case
  proof (cases i)
    case 0
    with Cons.prems have "Error_parsing_JSON f n \<in> set (logged (line_step loads lbl f n l st))"
      by (simp add: line_step_malformed)
    then show ?thesis
      using 0 process_lines_logged_mono [of "line_step loads lbl f n l st" loads lbl f "Suc n" ls]
      by auto
  next
    case (Suc j)
    with Cons.prems have "j < length ls" "loads (strip (ls ! j)) = None" by auto
    from Cons.IH [OF this, where n = "Suc n" and st = "line_step loads lbl f n l st"]
    show ?thesis using Suc by simp
  qed
qed

lemma process_files_malformed:
  "(f, ls) \<in> set fs \<Longrightarrow> endswith f ''.jsonl'' \<Longrightarrow> i < length ls \<Longrightarrow>
   loads (strip (ls ! i)) = None \<Longrightarrow>
   Error_parsing_JSON f (Suc i) \<in> set (logged (process_files loads lbl fs st))"
proof (induction fs arbitrary: st)
  case Nil then show ?case by simp
next
  case (Cons a fs)
  obtain g ms where a: "a = (g, ms)" by (cases a)
  show ?case
  proof (cases "(f, ls) = a")
    case True
    let ?st1 = "st\<lparr>jsonl_files_found := True, logged := logged st @ [Processing f]\<rparr>"
    have "Error_parsing_JSON f (1 + i) \<in> set (logged (process_lines loads lbl f 1 ls ?st1))"
      using Cons.prems by (intro process_lines_malformed)
    then show ?thesis
      using True a Cons.prems(2)
        process_files_logged_mono [of "process_lines loads lbl f 1 ls ?st1" loads lbl fs]
      by auto
  next
    case False
    with Cons.prems have "(f, ls) \<in> set fs" by auto
    from Cons.IH [OF this Cons.prems(2,3,4)] show ?thesis using a by simp
  qed
qed

lemma malformed_line_rows: "loads (strip l) = None \<Longrightarrow> line_rows loads lbl l = []"
  by (simp add: line_rows_def try_line_def)

text \<open>
  Claim C7. A line that fails to parse as JSON is logged with the name of its file and
  its line number (counted from 1) and adds no row; the rows returned are the rows of
  each line of each batch file, in order, so every other line of the file and every
  other batch file of the directory still contributes its rows.
\<close>

theorem normalizer_skips_malformed_line:
  assumes "(filename, lines) \<in> set files" and "endswith filename ''.jsonl''"
    and "i < length lines" and "loads (strip (lines ! i)) = None"
  shows "Error_parsing_JSON filename (i + 1) \<in> set (snd (process_jsonl_files loads (Some files)))
       \<and> line_rows loads None (lines ! i) = []
       \<and> fst (process_jsonl_files loads (Some files))
           = concat (map (\<lambda>(name, ls). if endswith name ''.jsonl''
                                        then concat (map (line_rows loads None) ls) else []) files)"
proof -
  have "Error_parsing_JSON filename (Suc i) \<in> set (logged (process_files loads None files
          \<lparr>processed_data = [], logged = [], jsonl_files_found = False\<rparr>))"
    using assms by (rule process_files_malformed)
  then have "Error_parsing_JSON filename (i + 1) \<in> set (snd (process_jsonl_files loads (Some files)))"
    by (simp add: process_jsonl_files_def process_jsonl_files_with_def Let_def)
  moreover have "line_rows loads None (lines ! i) = []"
    using assms(4) by (rule malformed_line_rows)
  moreover have "fst (process_jsonl_files loads (Some files))
           = concat (map (\<lambda>(name, ls). if endswith name ''.jsonl''
                                        then concat (map (line_rows loads None) ls) else []) files)"
    using process_jsonl_files_with_rows [of None loads files]
    by (simp add: process_jsonl_files_def file_rows_def)
  ultimately show ?thesis by blast
qed

theorem normalizer_skips_malformed_line_witness:
  "(''data_youtube_id_a.jsonl'', [''L1'', ''{bad'', ''L2'', ''L3'']) \<in> set ex_files
   \<and> endswith ''data_youtube_id_a.jsonl'' ''.jsonl''
   \<and> ex_loads (strip ([''L1'', ''{bad'', ''L2'', ''L3''] ! 1)) = None
   \<and> Error_parsing_JSON ''data_youtube_id_a.jsonl'' 2
        \<in> set (snd (process_jsonl_files ex_loads (Some ex_files)))
   \<and> map row_text (fst (process_jsonl_files ex_loads (Some ex_files)))
        = [Str ''salut tout le monde'', Str ''behi barcha'', Str ''yesser'',
           Str ''behi barcha'', Str ''mrigel'']"
proof -
  have h1: "(''data_youtube_id_a.jsonl'', [''L1'', ''{bad'', ''L2'', ''L3'']) \<in> set ex_files"
    by (simp add: ex_files_def)
  have h2: "endswith ''data_youtube_id_a.jsonl'' ''.jsonl''" by code_simp
  have h3: "(1::nat) < length [''L1'', ''{bad'', ''L2'', ''L3'']" by simp
  have h4: "ex_loads (strip ([''L1'', ''{bad'', ''L2'', ''L3''] ! 1)) = None" by code_simp
  have rows: "concat (map (\<lambda>(name, ls). if endswith name ''.jsonl''
                  then concat (map (line_rows ex_loads None) ls) else []) ex_files)
       = [\<lparr>source = PStr ''youtube'', source_id = PStr ''c1'', row_text = Str ''salut tout le monde'', label = None\<rparr>,
          \<lparr>source = PStr ''youtube'', source_id = PStr ''c2'', row_text = Str ''behi barcha'', label = None\<rparr>,
          \<lparr>source = PStr ''youtube'', source_id = PStr ''c3'', row_text = Str ''yesser'', label = None\<rparr>,
          \<lparr>source = PStr ''youtube'', source_id = PStr ''c5'', row_text = Str ''behi barcha'', label = None\<rparr>,
          \<lparr>source = PStr ''youtube'', source_id = PStr ''c6'', row_text = Str ''mrigel'', label = None\<rparr>]"
    by code_simp
  show ?thesis
    using normalizer_skips_malformed_line
            [where filename = "''data_youtube_id_a.jsonl''" and lines = "[''L1'', ''{bad'', ''L2'', ''L3'']"
               and files = ex_files and i = 1 and loads = ex_loads, OF h1 h2 h3 h4]
          h1 h2 h4
    by (simp add: rows eval_nat_numeral)
qed

text \<open>
  Claim C10. Every row the Dataset Normalizer returns (in either of its two copies) has a
  text that is a non-empty string equal to its own trimmed form; a line that parses as a
  JSON object whose extracted text is null, or a string that is empty or only white
  space (the default when no text key is present is the empty string), adds no row.
\<close>

theorem normalizer_rows_have_text:
  "(\<forall>r \<in> set (fst (process_jsonl_files loads dir)) \<union> set (fst (mcd_process_jsonl_files loads dir)).
      \<exists>s. row_text r = Str s \<and> s \<noteq> [] \<and> strip s = s)
   \<and> (loads (strip line) = Some (PDict data)
        \<and> (extract_text data = PNone \<or> (\<exists>s. extract_text data = PStr s \<and> strip s = []))
      \<longrightarrow> try_line loads lbl line = No_row
          \<and> processed_data (line_step loads lbl filename n line st) = processed_data st)"
proof -
  have "\<exists>s. row_text r = Str s \<and> s \<noteq> [] \<and> strip s = s"
    if "r \<in> set (fst (process_jsonl_files loads dir)) \<union> set (fst (mcd_process_jsonl_files loads dir))"
    for r
    using that process_jsonl_files_with_text [of r None loads dir]
      process_jsonl_files_with_text [of r "Some 0" loads dir]
    by (auto simp: process_jsonl_files_def mcd_process_jsonl_files_def)
  moreover have "try_line loads lbl line = No_row
          \<and> processed_data (line_step loads lbl filename n line st) = processed_data st"
    if "loads (strip line) = Some (PDict data)"
      and "extract_text data = PNone \<or> (\<exists>s. extract_text data = PStr s \<and> strip s = [])"
  proof -
    from that have "try_line loads lbl line = No_row"
      by (auto simp: try_line_def Let_def)
    then show ?thesis by (simp add: line_step_def)
  qed
  ultimately show ?thesis by blast
qed

theorem normalizer_rows_have_text_witness:
  "ex_loads (strip ''L4'') = Some (PDict [(''source'', PStr ''youtube''), (''id'', PStr ''c4''), (''text_raw'', PStr ''   '')])
   \<and> extract_text [(''source'', PStr ''youtube''), (''id'', PStr ''c4''), (''text_raw'', PStr ''   '')] = PStr ''   ''
   \<and> strip ''   '' = []
   \<and> try_line ex_loads None ''L4'' = No_row
   \<and> fst (process_jsonl_files ex_loads (Some [(''x.jsonl'', [''L4'', ''L3''])]))
       = [\<lparr>source = PStr ''youtube'', source_id = PStr ''c3'', row_text = Str ''yesser'', label = None\<rparr>]
   \<and> \<lparr>source = PStr ''youtube'', source_id = PStr ''c3'', row_text = Str ''yesser'', label = None\<rparr>
        \<in> set (fst (process_jsonl_files ex_loads (Some [(''x.jsonl'', [''L4'', ''L3''])])))
   \<and> (\<exists>s. row_text \<lparr>source = PStr ''youtube'', source_id = PStr ''c3'', row_text = Str ''yesser'', label = None\<rparr> = Str s
          \<and> s \<noteq> [] \<and> strip s = s)"
proof -
  have h1: "ex_loads (strip ''L4'') = Some (PDict [(''source'', PStr ''youtube''), (''id'', PStr ''c4''), (''text_raw'', PStr ''   '')])"
    by code_simp
  have h2: "extract_text [(''source'', PStr ''youtube''), (''id'', PStr ''c4''), (''text_raw'', PStr ''   '')] = PStr ''   ''"
    by code_simp
  have h3: "strip ''   '' = []" by code_simp
  have h4: "fst (process_jsonl_files ex_loads (Some [(''x.jsonl'', [''L4'', ''L3''])]))
       = [\<lparr>source = PStr ''youtube'', source_id = PStr ''c3'', row_text = Str ''yesser'', label = None\<rparr>]"
    by code_simp
  show ?thesis
    using normalizer_rows_have_text [of ex_loads "Some [(''x.jsonl'', [''L4'', ''L3''])]" "''L4''"
        "[(''source'', PStr ''youtube''), (''id'', PStr ''c4''), (''text_raw'', PStr ''   '')]" None]
      h1 h2 h3 h4
    by simp
qed

section \<open>Properties of the Merge Engine\<close>

lemma filter_upt_Suc:
  "filter P [0..<Suc n] = (if P 0 then [0] else []) @ map Suc (filter (\<lambda>i. P (Suc i)) [0..<n])"
proof -
  have "[0..<Suc n] = 0 # map Suc [0..<n]"
    by (simp add: upt_conv_Cons map_Suc_upt del: upt_Suc)
  then show ?thesis by (simp add: filter_map comp_def del: upt_Suc)
qed

lemma drop_duplicates_seen_index:
  "drop_duplicates_seen seen rs =
     map (nth rs) (filter (\<lambda>i. row_text (rs ! i) \<notin> set seen
                              \<and> (\<forall>j<i. row_text (rs ! j) \<noteq> row_text (rs ! i))) [0..<length rs])"
proof (induction rs arbitrary: seen)
  case Nil
  show ?case by simp
next
  case (Cons r rs)
  show ?case
  proof (cases "row_text r \<in> set seen")
    case True
    have "filter (\<lambda>i. row_text (rs ! i) \<notin> set seen \<and> row_text r \<noteq> row_text (rs ! i)
                    \<and> (\<forall>j<i. row_text (rs ! j) \<noteq> row_text (rs ! i))) [0..<length rs]
        = filter (\<lambda>i. row_text (rs ! i) \<notin> set seen
                    \<and> (\<forall>j<i. row_text (rs ! j) \<noteq> row_text (rs ! i))) [0..<length rs]"
      using True by (intro filter_cong) auto
    then show ?thesis
      using True Cons [of seen]
      by (simp add: filter_upt_Suc All_less_Suc2 comp_def del: upt_Suc)
  next
    case False
    have "filter (\<lambda>i. row_text (rs ! i) \<notin> set seen \<and> row_text r \<noteq> row_text (rs ! i)
                    \<and> (\<forall>j<i. row_text (rs ! j) \<noteq> row_text (rs ! i))) [0..<length rs]
        = filter (\<lambda>i. row_text (rs ! i) \<notin> set (row_text r # seen)
                    \<and> (\<forall>j<i. row_text (rs ! j) \<noteq> row_text (rs ! i))) [0..<length rs]"
      by (intro filter_cong) auto
    then show ?thesis
      using False Cons [of "row_text r # seen"]
      by (simp add: filter_upt_Suc All_less_Suc2 comp_def del: upt_Suc)
  qed
qed

lemma drop_duplicates_index:
  "drop_duplicates df =
     map (nth df) (filter (\<lambda>i. \<forall>j<i. row_text (df ! j) \<noteq> row_text (df ! i)) [0..<length df])"
  by (simp add: drop_duplicates_def drop_duplicates_seen_index)

lemma concat_filter_nonempty: "concat (filter (\<lambda>df. df \<noteq> []) dfs) = concat dfs"
  by (induction dfs) auto

lemma filter_nonempty_Nil: "(filter (\<lambda>df. df \<noteq> []) dfs = []) = (concat dfs = [])"
  by (induction dfs) auto

lemma merge_all_datasets_eq:
  assumes "load_origins e = Inr (dfs, msgs)"
  shows "merge_all_datasets e =
          (if concat dfs = []
           then Inr \<lparr>final_df = [], written = None, printed = msgs @ [Error_no_data]\<rparr>
           else if \<not> str_accessor_ok (drop_duplicates (fillna (concat dfs)))
                then Inl (Exn ''AttributeError'')
                else Inr \<lparr>final_df = filter long_enough (drop_duplicates (fillna (concat dfs))),
                         written = save e (filter long_enough (drop_duplicates (fillna (concat dfs)))),
                         printed = msgs\<rparr>)"
  using assms
  by (simp add: merge_all_datasets_def Let_def concat_filter_nonempty filter_nonempty_Nil)

lemma merge_all_datasets_final:
  assumes "load_origins e = Inr (dfs, msgs)" and "merge_all_datasets e = Inr res"
  shows "final_df res = filter long_enough (drop_duplicates (fillna (concat dfs)))"
proof (cases "concat dfs = []")
  case True
  have "filter long_enough (drop_duplicates (fillna (concat dfs)))
          = filter long_enough (drop_duplicates (fillna []))"
    by (simp only: True)
  then have "filter long_enough (drop_duplicates (fillna (concat dfs))) = []"
    by (simp add: fillna_def drop_duplicates_def)
  moreover from assms True have "final_df res = []"
    by (auto simp: merge_all_datasets_eq simp del: concat_eq_Nil_conv)
  ultimately show ?thesis by simp
next
  case False
  with assms show ?thesis
    by (auto simp: merge_all_datasets_eq split: if_splits)
qed


lemma ex_env2_origins:
  "load_origins ex_env2 = Inr ([ex_rows2, [], [], []], [Error_loading_TSAC, Warn_directory_missing])"
  by code_simp

lemma ex_env2_merge:
  "merge_all_datasets ex_env2 =
     Inr \<lparr>final_df = [\<lparr>source = PStr ''youtube'', source_id = PNaN, row_text = Str ''mrigel'', label = Some 2\<rparr>],
          written = Some (Xlsx [\<lparr>source = PStr ''youtube'', source_id = PNaN, row_text = Str ''mrigel'', label = Some 2\<rparr>]),
          printed = [Error_loading_TSAC, Warn_directory_missing]\<rparr>"
  by code_simp

text \<open>
  Claim C4, as stated, fails: deduplication compares the text column as stored, and only
  the rows of the normalizer are stored trimmed. In the example the spreadsheet row
  \<open>'' behi barcha''\<close> and the batch row \<open>''behi barcha''\<close> have the same trimmed
  text and both are in the final table.
\<close>

theorem dedup_trimmed_counterexample:
  "map row_text (case merge_all_datasets ex_env of Inr res \<Rightarrow> final_df res | Inl x \<Rightarrow> [])
     = [Str '' behi barcha'', Str ''mrigel'', Str ''yesser behi'', Str ''ya3tik essa7a'',
        Str ''salut tout le monde'', Str ''behi barcha'', Str ''yesser'']
   \<and> strip '' behi barcha'' = strip ''behi barcha''"
  by code_simp

text \<open>
  Claim C4, amended. The Merge Engine deduplicates the concatenated table by exact
  equality of the stored text cell: the rows that survive deduplication are those with
  no earlier row, in concatenation order, holding the same text cell, and the final table
  is these rows, in order, without the too short ones.
\<close>

theorem dedup_keeps_first_exact_text:
  assumes "load_origins e = Inr (dfs, msgs)" and "merge_all_datasets e = Inr res"
  shows "final_df res =
           filter long_enough
             (map (nth (fillna (concat dfs)))
                (filter (\<lambda>i. \<forall>j<i. row_text (fillna (concat dfs) ! j) \<noteq> row_text (fillna (concat dfs) ! i))
                   [0..<length (fillna (concat dfs))]))"
  using merge_all_datasets_final [OF assms] by (simp only: drop_duplicates_index)

theorem dedup_keeps_first_exact_text_witness:
  "load_origins ex_env2 = Inr ([ex_rows2, [], [], []], [Error_loading_TSAC, Warn_directory_missing])
   \<and> merge_all_datasets ex_env2 =
     Inr \<lparr>final_df = [\<lparr>source = PStr ''youtube'', source_id = PNaN, row_text = Str ''mrigel'', label = Some 2\<rparr>],
          written = Some (Xlsx [\<lparr>source = PStr ''youtube'', source_id = PNaN, row_text = Str ''mrigel'', label = Some 2\<rparr>]),
          printed = [Error_loading_TSAC, Warn_directory_missing]\<rparr>
   \<and> [\<lparr>source = PStr ''youtube'', source_id = PNaN, row_text = Str ''mrigel'', label = Some 2\<rparr>]
       = filter long_enough
             (map (nth (fillna (concat [ex_rows2, [], [], []])))
                (filter (\<lambda>i. \<forall>j<i. row_text (fillna (concat [ex_rows2, [], [], []]) ! j)
                                    \<noteq> row_text (fillna (concat [ex_rows2, [], [], []]) ! i))
                   [0..<length (fillna (concat [ex_rows2, [], [], []]))]))"
  using dedup_keeps_first_exact_text [OF ex_env2_origins ex_env2_merge] ex_env2_origins ex_env2_merge
  by simp

text \<open>
  Claim C9. In the table the Merge Engine returns, every row has a text whose trimmed
  length is above 5, so a row whose trimmed text has at most 5 characters is excluded;
  a row that survives deduplication with a trimmed text of exactly 6 characters is in it.
\<close>

theorem short_texts_dropped:
  assumes "load_origins e = Inr (dfs, msgs)" and "merge_all_datasets e = Inr res"
  shows "(\<forall>r s. row_text r = Str s \<and> length (strip s) \<le> 5 \<longrightarrow> r \<notin> set (final_df res))
       \<and> (\<forall>r \<in> set (final_df res). \<exists>s. row_text r = Str s \<and> 5 < length (strip s))
       \<and> (\<forall>r s. r \<in> set (drop_duplicates (fillna (concat dfs))) \<and> row_text r = Str s
                 \<and> length (strip s) = 6 \<longrightarrow> r \<in> set (final_df res))"
proof -
  have f: "final_df res = filter long_enough (drop_duplicates (fillna (concat dfs)))"
    using assms by (rule merge_all_datasets_final)
  have "r \<notin> set (final_df res)" if "row_text r = Str s" "length (strip s) \<le> 5" for r s
    using that by (simp add: f long_enough_def)
  moreover have "\<exists>s. row_text r = Str s \<and> 5 < length (strip s)" if "r \<in> set (final_df res)" for r
    using that by (cases "row_text r") (auto simp: f long_enough_def)
  moreover have "r \<in> set (final_df res)"
    if "r \<in> set (drop_duplicates (fillna (concat dfs)))" "row_text r = Str s" "length (strip s) = 6"
    for r s
    using that by (simp add: f long_enough_def)
  ultimately show ?thesis by blast
qed

theorem short_texts_dropped_witness:
  "load_origins ex_env2 = Inr ([ex_rows2, [], [], []], [Error_loading_TSAC, Warn_directory_missing])
   \<and> (\<exists>res. merge_all_datasets ex_env2 = Inr res
         \<and> \<lparr>source = PStr ''youtube'', source_id = PNaN, row_text = Str '' behi '', label = Some 0\<rparr>
              \<notin> set (final_df res)
         \<and> \<lparr>source = PStr ''youtube'', source_id = PNaN, row_text = Str ''mrigel'', label = Some 2\<rparr>
              \<in> set (final_df res))
   \<and> length (strip '' behi '') = 4 \<and> length (strip ''mrigel'') = 6
   \<and> \<lparr>source = PStr ''youtube'', source_id = PNaN, row_text = Str ''mrigel'', label = Some 2\<rparr>
        \<in> set (drop_duplicates (fillna (concat [ex_rows2, [], [], []])))"
proof -
  have l1: "length (strip '' behi '') = 4" and l2: "length (strip ''mrigel'') = 6" by code_simp+
  have d: "\<lparr>source = PStr ''youtube'', source_id = PNaN, row_text = Str ''mrigel'', label = Some 2\<rparr>
        \<in> set (drop_duplicates (fillna (concat [ex_rows2, [], [], []])))"
    by code_simp
  show ?thesis
    using short_texts_dropped [OF ex_env2_origins ex_env2_merge] ex_env2_origins ex_env2_merge l1 l2 d
    by simp
qed














text \<open>
  Claim C2: the mappings at the labels the claim names. The spreadsheet and ArSAS
  mappings trim and lower-case the label before the lookup; the TSAC mapping looks the
  label up as it is, under capitalised keys, so \<open>positive\<close> and \<open>POSITIVE\<close> fall to
  the default class 0 while \<open>Positive\<close> is class 1.
\<close>

theorem tsac_mapping_is_case_sensitive:
  "tsac_mapped ''Positive'' = 1 \<and> tsac_mapped ''positive'' = 0 \<and> tsac_mapped ''POSITIVE'' = 0
   \<and> arsas_mapped ''Positive'' = 1 \<and> arsas_mapped ''positive'' = 1 \<and> arsas_mapped ''POSITIVE'' = 1
   \<and> excel_mapped (Some (Str ''Happiness'')) = Some 1
   \<and> excel_mapped (Some (Str ''happiness'')) = Some 1
   \<and> excel_mapped (Some (Str ''HAPPINESS'')) = Some 1
   \<and> label (tsac_processed [(''sentence'', ''ya3tik essa7a''), (''label'', ''positive'')]) = Some 0
   \<and> label (tsac_processed [(''sentence'', ''ya3tik essa7a''), (''label'', ''Positive'')]) = Some 1"
  by code_simp


lemma arsas_mapped_range: "arsas_mapped l \<in> {0, 1, 2}"
  by (simp add: arsas_mapped_def dict_get_def arsas_label_mapping_def)

lemma tsac_mapped_range: "tsac_mapped l \<in> {0, 1, 2}"
  by (simp add: tsac_mapped_def dict_get_def tsac_label_mapping_def)

lemma excel_mapped_range: "excel_mapped (Some (Str s)) \<in> {Some 0, Some 1, Some 2}"
  by (simp add: excel_mapped_def dict_get_def excel_label_mapping_def)

section \<open>Properties of the configuration check\<close>

lemma join_contains: "x \<in> set xs \<Longrightarrow> \<exists>pre post. join sep xs = pre @ x @ post"
proof (induction sep xs rule: join.induct)
  case (1 sep) then show ?case by simp
next
  case (2 sep y)
  then have "join sep [y] = [] @ x @ []" by simp
  then show ?case by blast
next
  case (3 sep y z zs)
  show ?case
  proof (cases "x = y")
    case True
    then have "join sep (y # z # zs) = [] @ x @ (sep @ join sep (z # zs))" by simp
    then show ?thesis by blast
  next
    case False
    with 3 obtain pre post where "join sep (z # zs) = pre @ x @ post" by auto
    then have "join sep (y # z # zs) = (y @ sep @ pre) @ x @ post" by simp
    then show ?thesis by blast
  qed
qed

lemma unset_is_missing:
  "(n, v) \<in> set (required_variables cls) \<Longrightarrow> \<not> is_set v \<Longrightarrow> n \<in> set (missing_variables cls)"
  by (auto simp: required_variables_def missing_variables_def)

lemma run_platforms_events:
  "Construct q \<in> set (fst (run_platforms c ps)) \<Longrightarrow> q \<in> set ps"
  by (induction ps) (auto simp: Let_def split: prod.splits if_splits)

text \<open>
  Claim C8. When a required credential variable is unset, \<open>validate_config\<close> raises a
  \<open>ValueError\<close> whose message contains the name of every required variable that is
  unset or empty, and \<open>main\<close> exits with status 1 without having constructed an
  adapter or started a collection (with valid arguments, the configuration error is all
  it does).
\<close>

theorem missing_credentials_fail_before_collection:
  assumes "(n, None) \<in> set (required_variables cls)"
  shows "\<exists>msg. validate_config cls = Inl msg
           \<and> (\<forall>(m, v) \<in> set (required_variables cls).
                  \<not> is_set v \<longrightarrow> (\<exists>pre post. msg = pre @ m @ post))
           \<and> (\<forall>p k. Construct p \<notin> set (fst (collect_main a cls collect_data))
                    \<and> Collected p k \<notin> set (fst (collect_main a cls collect_data)))
           \<and> snd (collect_main a cls collect_data) = 1
           \<and> (fst (validate_args a) \<longrightarrow>
                 fst (collect_main a cls collect_data) = [Configuration_error msg])"
proof -
  let ?msg = "''Missing environment variables: '' @ join '', '' (missing_variables cls)"
  have "n \<in> set (missing_variables cls)"
    using assms by (rule unset_is_missing) (simp add: is_set_def)
  then have ne: "missing_variables cls \<noteq> []" by auto
  then have v: "validate_config cls = Inl ?msg"
    by (simp add: validate_config_def Let_def)
  have names: "\<exists>pre post. ?msg = pre @ m @ post"
    if "(m, v) \<in> set (required_variables cls)" "\<not> is_set v" for m v
  proof -
    from that have "m \<in> set (missing_variables cls)" by (rule unset_is_missing)
    then obtain pre post where "join '', '' (missing_variables cls) = pre @ m @ post"
      using join_contains by blast
    then have "?msg = (''Missing environment variables: '' @ pre) @ m @ post" by simp
    then show ?thesis by blast
  qed
  have m: "collect_main a cls collect_data =
             (if fst (validate_args a) then ([Configuration_error ?msg], 1)
              else ([Argument_errors (snd (validate_args a))], 1))"
    using v by (cases "validate_args a") (auto simp: collect_main_def)
  have "validate_config cls = Inl ?msg
           \<and> (\<forall>(m, v) \<in> set (required_variables cls).
                  \<not> is_set v \<longrightarrow> (\<exists>pre post. ?msg = pre @ m @ post))
           \<and> (\<forall>p k. Construct p \<notin> set (fst (collect_main a cls collect_data))
                    \<and> Collected p k \<notin> set (fst (collect_main a cls collect_data)))
           \<and> snd (collect_main a cls collect_data) = 1
           \<and> (fst (validate_args a) \<longrightarrow>
                 fst (collect_main a cls collect_data) = [Configuration_error ?msg])"
    using v names by (auto simp: m)
  then show ?thesis by blast
qed

theorem missing_credentials_fail_before_collection_witness:
  "(''YOUTUBE_API_KEY'', None) \<in> set (required_variables ex_config)
   \<and> (''REDDIT_CLIENT_SECRET'', None) \<in> set (required_variables ex_config)
   \<and> validate_config ex_config
       = Inl ''Missing environment variables: YOUTUBE_API_KEY, REDDIT_CLIENT_ID, REDDIT_CLIENT_SECRET, REDDIT_USER_AGENT''
   \<and> fst (validate_args ex_args)
   \<and> collect_main ex_args ex_config (\<lambda>p. 3)
       = ([Configuration_error ''Missing environment variables: YOUTUBE_API_KEY, REDDIT_CLIENT_ID, REDDIT_CLIENT_SECRET, REDDIT_USER_AGENT''], 1)"
proof -
  have h: "(''YOUTUBE_API_KEY'', None) \<in> set (required_variables ex_config)"
    by (simp add: required_variables_def ex_config_def)
  have h2: "(''REDDIT_CLIENT_SECRET'', None) \<in> set (required_variables ex_config)"
    by (simp add: required_variables_def ex_config_def)
  have v: "validate_config ex_config
       = Inl ''Missing environment variables: YOUTUBE_API_KEY, REDDIT_CLIENT_ID, REDDIT_CLIENT_SECRET, REDDIT_USER_AGENT''"
    by code_simp
  have a: "fst (validate_args ex_args)" by code_simp
  from missing_credentials_fail_before_collection [OF h, of ex_args "\<lambda>p. 3"] v a
  have "fst (collect_main ex_args ex_config (\<lambda>p. 3))
          = [Configuration_error ''Missing environment variables: YOUTUBE_API_KEY, REDDIT_CLIENT_ID, REDDIT_CLIENT_SECRET, REDDIT_USER_AGENT'']"
    and "snd (collect_main ex_args ex_config (\<lambda>p. 3)) = 1"
    by auto
  then have "collect_main ex_args ex_config (\<lambda>p. 3)
       = ([Configuration_error ''Missing environment variables: YOUTUBE_API_KEY, REDDIT_CLIENT_ID, REDDIT_CLIENT_SECRET, REDDIT_USER_AGENT''], 1)"
    by (simp add: prod_eq_iff)
  with h h2 v a show ?thesis by simp
qed

section \<open>Properties of the source adapters\<close>

subsection \<open>At most \<open>limit\<close> records\<close>

lemma py_take_length: "0 \<le> n \<Longrightarrow> int (length (py_take n xs)) \<le> n"
  by (simp add: py_take_def)

lemma page_items_length:
  "page_items video_id max_results its total_collected comments = (t, c, raised) \<Longrightarrow>
   int (length c) - int (length comments) = t - total_collected
   \<and> (total_collected < max_results \<longrightarrow> t \<le> max_results)"
proof (induction video_id max_results its total_collected comments rule: page_items.induct)
  case (1 video_id max_results total_collected comments)
  then show ?case by auto
next
  case (2 video_id max_results rest total_collected comments)
  then show ?case by auto
next
  case (3 video_id max_results cid body author rest total_collected comments)
  show ?case
  proof (cases "total_collected + 1 \<ge> max_results")
    case True
    with 3 show ?thesis by auto
  next
    case False
    with 3 show ?thesis by auto
  qed
qed

lemma get_video_comments_loop_length:
  "int (length comments) = total_collected \<Longrightarrow> total_collected \<le> max_results \<Longrightarrow>
   int (length (get_video_comments_loop api video_id max_results tok total_collected comments))
     \<le> max_results"
proof (induction api video_id max_results tok total_collected comments
       rule: get_video_comments_loop.induct)
  case (1 api video_id max_results next_page_token total_collected comments)
  show ?case
  proof (cases "total_collected < max_results")
    case False
    with 1 show ?thesis by (subst get_video_comments_loop.simps) simp
  next
    case lt: True
    show ?thesis
    proof (cases "commentThreads_list api video_id (min 100 (max_results - total_collected))
                    next_page_token")
      case (Inl e)
      with 1 lt show ?thesis by (subst get_video_comments_loop.simps) simp
    next
      case (Inr response)
      show ?thesis
      proof (cases "items response = []")
        case True
        with 1 lt Inr show ?thesis by (subst get_video_comments_loop.simps) simp
      next
        case ne: False
        obtain t c raised where p:
          "page_items video_id max_results (items response) total_collected comments = (t, c, raised)"
          by (cases "page_items video_id max_results (items response) total_collected comments") auto
        from page_items_length [OF p] lt "1.prems"
        have len: "int (length c) = t" and le: "t \<le> max_results" by auto
        show ?thesis
        proof (cases "raised \<or> nextPageToken response = None \<or> nextPageToken response = Some []")
          case True
          then show ?thesis
            using lt Inr ne p len le
            by (subst get_video_comments_loop.simps) (auto split: option.splits)
        next
          case False
          then obtain tok' where tok: "nextPageToken response = Some tok'" "tok' \<noteq> []" "\<not> raised"
            by (cases "nextPageToken response") auto
          have "int (length (get_video_comments_loop api video_id max_results (Some tok') t c))
                  \<le> max_results"
            using "1.IH" [OF lt Inr ne p [symmetric] refl _ tok(1) tok(2) len le] tok(3) by simp
          then show ?thesis
            using lt Inr ne p tok
            by (subst get_video_comments_loop.simps) simp
        qed
      qed
    qed
  qed
qed

lemma get_video_comments_length:
  "0 \<le> max_results \<Longrightarrow> int (length (get_video_comments api video_id max_results)) \<le> max_results"
  unfolding get_video_comments_def
  by (rule get_video_comments_loop_length) simp_all

lemma build_comments_length:
  "length (fst (build_comments post_id how cs comments)) \<le> length comments + length cs"
proof (induction post_id how cs comments rule: build_comments.induct)
  case (1 post_id how comments)
  show ?case by simp
next
  case (2 post_id how rest comments)
  show ?case by simp
next
  case (3 post_id how cid body author rest comments)
  then show ?case by (cases body) (auto split: if_splits)
qed

lemma get_post_comments_length:
  "0 \<le> max_comments \<Longrightarrow> int (length (get_post_comments api post_id max_comments)) \<le> max_comments"
proof (cases "submission api post_id")
  case (Inl e)
  then show "0 \<le> max_comments \<Longrightarrow> ?thesis" by (simp add: get_post_comments_def)
next
  case (Inr sub)
  assume m: "0 \<le> max_comments"
  have "length (fst (build_comments post_id None (py_take max_comments (comments_list sub)) []))
          \<le> length (py_take max_comments (comments_list sub))"
    using build_comments_length [of post_id None "py_take max_comments (comments_list sub)" "[]"]
    by simp
  with py_take_length [OF m, of "comments_list sub"] Inr show ?thesis
    by (simp add: get_post_comments_def)
qed

lemma rd_collect_by_id_length:
  assumes "0 \<le> limit"
  shows "int (length (fst (rd_collect_by_id api self post_id limit))) \<le> limit"
proof -
  have "int (length comments) \<le> limit"
    if "build_comments post_id m (py_take limit cs) [] = (comments, raised)" for m cs comments raised
  proof -
    have "length comments \<le> length (py_take limit cs)"
      using build_comments_length [of post_id m "py_take limit cs" "[]"] that by simp
    with py_take_length [OF assms, of cs] show ?thesis by simp
  qed
  then show ?thesis
    using assms
    by (auto simp: rd_collect_by_id_def Let_def split: sum.splits prod.splits bool.splits)
qed

lemma append_tweets_length:
  "length (append_tweets keep container xs tweets) \<le> length tweets + length xs"
proof (induction keep container xs tweets rule: append_tweets.induct)
  case (1 keep container tweets)
  show ?case by simp
next
  case (2 keep container rest tweets)
  show ?case by simp
next
  case (3 keep container tw rest tweets)
  then show ?case by (cases "keep tw") auto
qed

lemma cursor_items_length: "0 \<le> n \<Longrightarrow> int (length (cursor_items n xs)) \<le> n"
  by (simp add: cursor_items_def)

lemma get_user_tweets_length:
  assumes "0 \<le> max_tweets"
  shows "int (length (get_user_tweets api username max_tweets)) \<le> max_tweets"
  using append_tweets_length [of "\<lambda>tw. True" None "cursor_items max_tweets (user_timeline api username)" "[]"]
    cursor_items_length [OF assms, of "user_timeline api username"]
  by (simp add: get_user_tweets_def)

lemma get_tweet_replies_length:
  assumes "0 \<le> max_replies"
  shows "int (length (get_tweet_replies api tweet_id max_replies)) \<le> max_replies"
proof (cases "get_status api tweet_id")
  case (Inl e)
  with assms show ?thesis by (simp add: get_tweet_replies_def)
next
  case (Inr original_tweet)
  let ?xs = "cursor_items max_replies
               (search_tweets api (''conversation_id:'' @ status_id_str original_tweet))"
  have "length (get_tweet_replies api tweet_id max_replies) \<le> length ?xs"
    using Inr append_tweets_length [of _ "Some tweet_id" ?xs "[]"]
    by (simp add: get_tweet_replies_def)
  with cursor_items_length [OF assms] show ?thesis
    by (meson le_trans of_nat_le_iff order_trans)
qed

lemma tw_collect_by_id_length:
  assumes "0 \<le> limit"
  shows "int (length (fst (tw_collect_by_id api self identifier limit id_type))) \<le> limit"
  using assms get_user_tweets_length [OF assms, of api "identifier"]
    get_tweet_replies_length [OF assms, of api "identifier"]
  by (simp add: tw_collect_by_id_def Let_def)

lemma yt_collect_by_id_length:
  assumes "0 \<le> limit"
  shows "int (length (fst (yt_collect_by_id api self video_id limit))) \<le> limit"
  using assms get_video_comments_length [OF assms, of api video_id]
  by (simp add: yt_collect_by_id_def Let_def)

text \<open>
  The limit of \<open>collect_by_id\<close> is a count of records. The command line reads it with
  \<open>type=int\<close> and does not check its sign; with a negative number the video and
  microblog adapters return nothing, and the forum adapter, which cuts the comment list
  with \<open>[:limit]\<close>, returns all comments but the last \<open>-limit\<close>.
\<close>

lemma rd_collect_by_id_negative_limit:
  "map rec_id (fst (rd_collect_by_id ex_rd_api new_collector ''p'' (- 1))) = [''k1'', ''k2'']
   \<and> fst (yt_collect_by_id ex_yt_api new_collector ''v'' (- 1)) = []
   \<and> fst (tw_collect_by_id ex_tw_api new_collector ''100'' (- 1) ''tweet_id'') = []"
  by code_simp

text \<open>
  Claim C5. For every adapter and every call \<open>collect_by_id(identifier, limit)\<close>,
  \<open>limit\<close> being a count of records (\<open>0 \<le> limit\<close>), the returned sequence has at
  most \<open>limit\<close> records.
\<close>

theorem collect_by_id_at_most_limit:
  assumes "0 \<le> limit"
  shows "int (length (fst (yt_collect_by_id yt self video_id limit))) \<le> limit
       \<and> int (length (fst (rd_collect_by_id rd self post_id limit))) \<le> limit
       \<and> int (length (fst (tw_collect_by_id tw self identifier limit id_type))) \<le> limit"
  using yt_collect_by_id_length [OF assms] rd_collect_by_id_length [OF assms]
    tw_collect_by_id_length [OF assms]
  by blast

theorem collect_by_id_at_most_limit_witness:
  "(0::int) \<le> 1
   \<and> map rec_id (fst (yt_collect_by_id ex_yt_api new_collector ''v'' 1)) = [''y1'']
   \<and> map rec_id (fst (rd_collect_by_id ex_rd_api new_collector ''p'' 1)) = [''k1'']
   \<and> map rec_id (fst (tw_collect_by_id ex_tw_api new_collector ''100'' 1 ''tweet_id'')) = [''t1'']
   \<and> int (length (fst (yt_collect_by_id ex_yt_api new_collector ''v'' 1))) \<le> 1
   \<and> int (length (fst (rd_collect_by_id ex_rd_api new_collector ''p'' 1))) \<le> 1
   \<and> int (length (fst (tw_collect_by_id ex_tw_api new_collector ''100'' 1 ''tweet_id''))) \<le> 1"
proof -
  have h: "(0::int) \<le> 1" by simp
  have e: "map rec_id (fst (yt_collect_by_id ex_yt_api new_collector ''v'' 1)) = [''y1'']"
    "map rec_id (fst (rd_collect_by_id ex_rd_api new_collector ''p'' 1)) = [''k1'']"
    "map rec_id (fst (tw_collect_by_id ex_tw_api new_collector ''100'' 1 ''tweet_id'')) = [''t1'']"
    by code_simp+
  show ?thesis
    using collect_by_id_at_most_limit [OF h, of ex_yt_api new_collector "''v''" ex_rd_api "''p''"
            ex_tw_api "''100''" "''tweet_id''"] e
    by simp
qed

section \<open>Properties of the records and of the keyword budget\<close>

subsection \<open>Ids and texts are passed through\<close>

lemma page_items_nonempty:
  "page_items video_id max_results its total_collected comments = (t, c, raised) \<Longrightarrow>
   \<forall>r \<in> set comments. nonempty_record r \<Longrightarrow>
   \<forall>i b u. Thread i b u \<in> set its \<longrightarrow> i \<noteq> [] \<and> b \<noteq> [] \<Longrightarrow>
   \<forall>r \<in> set c. nonempty_record r"
proof (induction video_id max_results its total_collected comments rule: page_items.induct)
  case (1 video_id max_results total_collected comments)
  then show ?case by auto
next
  case (2 video_id max_results rest total_collected comments)
  then show ?case by auto
next
  case (3 video_id max_results cid body author rest total_collected comments)
  then have new: "nonempty_record (yt_comment_data video_id cid body author)"
    by (simp add: nonempty_record_def yt_comment_data_def)
  show ?case
  proof (cases "total_collected + 1 \<ge> max_results")
    case True
    with 3 new show ?thesis by auto
  next
    case False
    have "\<forall>r \<in> set (comments @ [yt_comment_data video_id cid body author]). nonempty_record r"
      using "3.prems"(2) new by auto
    moreover have "\<forall>i b u. Thread i b u \<in> set rest \<longrightarrow> i \<noteq> [] \<and> b \<noteq> []"
      using "3.prems"(3) by auto
    moreover have "page_items video_id max_results rest (total_collected + 1)
                     (comments @ [yt_comment_data video_id cid body author]) = (t, c, raised)"
      using "3.prems"(1) False by simp
    ultimately show ?thesis
      using "3.IH" False by blast
  qed
qed

lemma get_video_comments_loop_nonempty:
  "yt_upstream_nonempty api \<Longrightarrow> \<forall>r \<in> set comments. nonempty_record r \<Longrightarrow>
   \<forall>r \<in> set (get_video_comments_loop api video_id max_results tok total_collected comments).
      nonempty_record r"
proof (induction api video_id max_results tok total_collected comments
       rule: get_video_comments_loop.induct)
  case (1 api video_id max_results next_page_token total_collected comments)
  show ?case
  proof (cases "total_collected < max_results")
    case False
    with 1 show ?thesis by (subst get_video_comments_loop.simps) simp
  next
    case lt: True
    show ?thesis
    proof (cases "commentThreads_list api video_id (min 100 (max_results - total_collected))
                    next_page_token")
      case (Inl e)
      with 1 lt show ?thesis by (subst get_video_comments_loop.simps) simp
    next
      case (Inr response)
      show ?thesis
      proof (cases "items response = []")
        case True
        with 1 lt Inr show ?thesis by (subst get_video_comments_loop.simps) simp
      next
        case ne: False
        obtain t c raised where p:
          "page_items video_id max_results (items response) total_collected comments = (t, c, raised)"
          by (cases "page_items video_id max_results (items response) total_collected comments") auto
        have up: "\<forall>i b u. Thread i b u \<in> set (items response) \<longrightarrow> i \<noteq> [] \<and> b \<noteq> []"
          using "1.prems"(1) Inr unfolding yt_upstream_nonempty_def by blast
        have c: "\<forall>r \<in> set c. nonempty_record r"
          using page_items_nonempty [OF p "1.prems"(2) up] .
        show ?thesis
        proof (cases "raised \<or> nextPageToken response = None \<or> nextPageToken response = Some []")
          case True
          then show ?thesis
            using lt Inr ne p c
            by (subst get_video_comments_loop.simps) (auto split: option.splits)
        next
          case False
          then obtain tok' where tok: "nextPageToken response = Some tok'" "tok' \<noteq> []" "\<not> raised"
            by (cases "nextPageToken response") auto
          have "\<forall>r \<in> set (get_video_comments_loop api video_id max_results (Some tok') t c).
                  nonempty_record r"
            using "1.IH" [OF lt Inr ne p [symmetric] refl _ tok(1) tok(2) "1.prems"(1) c] tok(3)
            by simp
          then show ?thesis
            using lt Inr ne p tok
            by (subst get_video_comments_loop.simps) simp
        qed
      qed
    qed
  qed
qed

lemma get_video_comments_nonempty:
  "yt_upstream_nonempty api \<Longrightarrow>
   \<forall>r \<in> set (get_video_comments api video_id max_results). nonempty_record r"
  unfolding get_video_comments_def
  by (rule get_video_comments_loop_nonempty) simp_all

lemma keyword_search_nonempty [simp]:
  "nonempty_record (keyword_search keywords r) = nonempty_record r"
  by (simp add: keyword_search_def nonempty_record_def)

lemma yt_collect_videos_nonempty:
  "yt_upstream_nonempty api \<Longrightarrow> \<forall>r \<in> set comments. nonempty_record r \<Longrightarrow>
   \<forall>r \<in> set (yt_collect_videos api keywords per limit video_ids comments). nonempty_record r"
proof (induction video_ids arbitrary: comments)
  case Nil
  then show ?case by simp
next
  case (Cons v vs)
  have "\<forall>r \<in> set (comments @ map (keyword_search keywords) (get_video_comments api v per)).
          nonempty_record r"
    using Cons.prems get_video_comments_nonempty [of api v per] by auto
  from Cons.IH [OF Cons.prems(1) this] Cons.prems(2) show ?case by simp
qed

lemma yt_nonempty:
  assumes "yt_upstream_nonempty api"
  shows "\<forall>r \<in> set (fst (yt_collect_by_id api self video_id limit))
              \<union> set (fst (yt_collect_by_keywords api self keywords limit)). nonempty_record r"
proof -
  have "\<forall>r \<in> set (yt_search_and_collect api keywords limit). nonempty_record r"
    using yt_collect_videos_nonempty [OF assms, of "[]"]
    by (simp add: yt_search_and_collect_def Let_def)
  then show ?thesis
    using get_video_comments_nonempty [OF assms, of video_id limit]
    by (auto simp: yt_collect_by_id_def yt_collect_by_keywords_def Let_def)
qed

lemma build_comments_nonempty:
  "\<forall>r \<in> set comments. nonempty_record r \<Longrightarrow>
   \<forall>i b a. Comment i (Some b) a \<in> set cs \<longrightarrow> i \<noteq> [] \<and> b \<noteq> [] \<Longrightarrow>
   \<forall>r \<in> set (fst (build_comments post_id how cs comments)). nonempty_record r"
proof (induction post_id how cs comments rule: build_comments.induct)
  case (1 post_id how comments)
  then show ?case by simp
next
  case (2 post_id how rest comments)
  then show ?case by simp
next
  case (3 post_id how cid body author rest comments)
  have rest: "\<forall>i b a. Comment i (Some b) a \<in> set rest \<longrightarrow> i \<noteq> [] \<and> b \<noteq> []"
    using "3.prems"(2) by auto
  show ?case
  proof (cases body)
    case None
    with 3 rest show ?thesis by simp
  next
    case (Some b)
    show ?thesis
    proof (cases "b \<notin> set [''[deleted]'', ''[removed]'']")
      case False
      with 3 rest Some show ?thesis by simp
    next
      case True
      have "nonempty_record (rd_comment_data post_id how cid b author)"
        using "3.prems"(2) Some by (simp add: nonempty_record_def rd_comment_data_def)
      then have "\<forall>r \<in> set (comments @ [rd_comment_data post_id how cid b author]). nonempty_record r"
        using "3.prems"(1) by auto
      from "3.IH"(2) [OF Some True this rest] Some True show ?thesis by simp
    qed
  qed
qed

lemma py_take_subset: "set (py_take n xs) \<subseteq> set xs"
  by (auto simp: py_take_def dest: in_set_takeD)

lemma build_comments_taken_nonempty:
  assumes "rd_upstream_nonempty api" and "submission api p = Inr sub"
  shows "\<forall>r \<in> set (fst (build_comments post_id how (py_take n (comments_list sub)) [])).
           nonempty_record r"
proof (rule build_comments_nonempty)
  show "\<forall>r \<in> set []. nonempty_record r" by simp
  show "\<forall>i b a. Comment i (Some b) a \<in> set (py_take n (comments_list sub)) \<longrightarrow> i \<noteq> [] \<and> b \<noteq> []"
    using assms py_take_subset [of n "comments_list sub"]
    unfolding rd_upstream_nonempty_def by blast
qed

lemma get_post_comments_nonempty:
  assumes "rd_upstream_nonempty api"
  shows "\<forall>r \<in> set (get_post_comments api post_id max_comments). nonempty_record r"
proof (cases "submission api post_id")
  case (Inl e)
  then show ?thesis by (simp add: get_post_comments_def)
next
  case (Inr sub)
  with build_comments_taken_nonempty [OF assms Inr, of post_id None max_comments]
  show ?thesis by (simp add: get_post_comments_def)
qed

lemma rd_collect_posts_nonempty:
  "rd_upstream_nonempty api \<Longrightarrow> \<forall>r \<in> set comments. nonempty_record r \<Longrightarrow>
   \<forall>r \<in> set (rd_collect_posts api per limit posts comments). nonempty_record r"
proof (induction posts arbitrary: comments)
  case Nil
  then show ?case by simp
next
  case (Cons p ps)
  have "\<forall>r \<in> set (comments @ get_post_comments api p per). nonempty_record r"
    using Cons.prems get_post_comments_nonempty [of api p per] by auto
  from Cons.IH [OF Cons.prems(1) this] Cons.prems(2) show ?case by simp
qed

lemma rd_nonempty:
  assumes "rd_upstream_nonempty api"
  shows "\<forall>r \<in> set (fst (rd_collect_by_id api self post_id limit))
              \<union> set (fst (rd_collect_by_keywords api self keywords limit subreddit)).
           nonempty_record r"
proof -
  have id: "\<forall>r \<in> set (fst (rd_collect_by_id api self post_id limit)). nonempty_record r"
  proof (cases "submission api post_id")
    case (Inl e)
    then show ?thesis by (simp add: rd_collect_by_id_def Let_def)
  next
    case (Inr sub)
    with build_comments_taken_nonempty [OF assms Inr, of post_id "Some ''direct_post_id''" limit]
    show ?thesis
      by (auto simp: rd_collect_by_id_def Let_def split: prod.splits bool.splits)
  qed
  have "\<forall>r \<in> set (rd_search_and_collect api subreddit keywords limit). nonempty_record r"
    using rd_collect_posts_nonempty [OF assms, of "[]"]
    by (simp add: rd_search_and_collect_def Let_def)
  then have "\<forall>r \<in> set (fst (rd_collect_by_keywords api self keywords limit subreddit)).
               nonempty_record r"
    by (auto simp: rd_collect_by_keywords_def Let_def nonempty_record_def)
  with id show ?thesis by blast
qed

lemma append_tweets_nonempty:
  "\<forall>r \<in> set tweets. nonempty_record r \<Longrightarrow>
   \<forall>tw. Tweet tw \<in> set xs \<longrightarrow> id_str tw \<noteq> [] \<and> full_text tw \<noteq> [] \<Longrightarrow>
   \<forall>r \<in> set (append_tweets keep container xs tweets). nonempty_record r"
proof (induction keep container xs tweets rule: append_tweets.induct)
  case (1 keep container tweets)
  then show ?case by simp
next
  case (2 keep container rest tweets)
  then show ?case by simp
next
  case (3 keep container tw rest tweets)
  have "nonempty_record (tweet_data container tw)"
    using "3.prems"(2) by (simp add: nonempty_record_def tweet_data_def)
  then have a: "\<forall>r \<in> set (if keep tw then tweets @ [tweet_data container tw] else tweets).
               nonempty_record r"
    using "3.prems"(1) by auto
  have b: "\<forall>tw. Tweet tw \<in> set rest \<longrightarrow> id_str tw \<noteq> [] \<and> full_text tw \<noteq> []"
    using "3.prems"(2) by auto
  from "3.IH" [OF a b] show ?case by (simp only: append_tweets.simps)
qed

lemma cursor_items_subset: "set (cursor_items n xs) \<subseteq> set xs"
  by (auto simp: cursor_items_def dest: in_set_takeD)

lemma search_tweets_by_keywords_nonempty:
  "tw_upstream_nonempty api \<Longrightarrow> \<forall>r \<in> set tweets. nonempty_record r \<Longrightarrow>
   \<forall>r \<in> set (search_tweets_by_keywords api keywords max_tweets tweets). nonempty_record r"
proof (induction "keywords" arbitrary: tweets)
  case Nil
  then show ?case by simp
next
  case (Cons k ks)
  have "\<forall>tw. Tweet tw \<in> set (cursor_items max_tweets (search_tweets api k)) \<longrightarrow>
              id_str tw \<noteq> [] \<and> full_text tw \<noteq> []"
    using Cons.prems(1) cursor_items_subset [of max_tweets "search_tweets api k"]
    unfolding tw_upstream_nonempty_def by blast
  from append_tweets_nonempty [OF Cons.prems(2) this]
  have "\<forall>r \<in> set (append_tweets (\<lambda>tw. True) None
                     (cursor_items max_tweets (search_tweets api k)) tweets). nonempty_record r" .
  from Cons.IH [OF Cons.prems(1) this] show ?case by simp
qed

lemma tw_search_items_nonempty:
  assumes "tw_upstream_nonempty api"
  shows "\<forall>tw. Tweet tw \<in> set (cursor_items n (search_tweets api q)) \<longrightarrow>
              id_str tw \<noteq> [] \<and> full_text tw \<noteq> []"
  using assms cursor_items_subset [of n "search_tweets api q"]
  unfolding tw_upstream_nonempty_def by blast

lemma tw_timeline_items_nonempty:
  assumes "tw_upstream_nonempty api"
  shows "\<forall>tw. Tweet tw \<in> set (cursor_items n (user_timeline api q)) \<longrightarrow>
              id_str tw \<noteq> [] \<and> full_text tw \<noteq> []"
  using assms cursor_items_subset [of n "user_timeline api q"]
  unfolding tw_upstream_nonempty_def by blast

lemma get_user_tweets_nonempty:
  assumes "tw_upstream_nonempty api"
  shows "\<forall>r \<in> set (get_user_tweets api username max_tweets). nonempty_record r"
  unfolding get_user_tweets_def
  by (rule append_tweets_nonempty [OF _ tw_timeline_items_nonempty [OF assms]]) simp

lemma get_tweet_replies_nonempty:
  assumes "tw_upstream_nonempty api"
  shows "\<forall>r \<in> set (get_tweet_replies api tweet_id max_replies). nonempty_record r"
proof (cases "get_status api tweet_id")
  case (Inl e)
  then show ?thesis by (simp add: get_tweet_replies_def)
next
  case (Inr original_tweet)
  have "\<forall>r \<in> set (append_tweets
            (\<lambda>tw. in_reply_to_status_id_str tw = Some tweet_id
                   \<or> in_reply_to_user_id_str tw = Some (status_user_id_str original_tweet))
            (Some tweet_id)
            (cursor_items max_replies
               (search_tweets api (''conversation_id:'' @ status_id_str original_tweet)))
            []). nonempty_record r"
    by (rule append_tweets_nonempty [OF _ tw_search_items_nonempty [OF assms]]) simp
  then show ?thesis by (simp only: get_tweet_replies_def Inr sum.case)
qed

lemma set_method_nonempty:
  "nonempty_record (c\<lparr>collection_method := m\<rparr>) = nonempty_record c"
  by (simp add: nonempty_record_def)

lemma tw_nonempty:
  assumes "tw_upstream_nonempty api"
  shows "\<forall>r \<in> set (fst (tw_collect_by_id api self ident limit id_type))
              \<union> set (fst (tw_collect_by_keywords api self keywords limit)). nonempty_record r"
proof -
  have k: "\<forall>r \<in> set (search_tweets_by_keywords api keywords limit []). nonempty_record r"
    by (rule search_tweets_by_keywords_nonempty [OF assms]) simp
  have "\<forall>r \<in> set (fst (tw_collect_by_id api self ident limit id_type)). nonempty_record r"
    using get_user_tweets_nonempty [OF assms, of ident limit]
      get_tweet_replies_nonempty [OF assms, of ident limit]
    by (simp add: tw_collect_by_id_def Let_def set_method_nonempty)
  moreover have "\<forall>r \<in> set (fst (tw_collect_by_keywords api self keywords limit)). nonempty_record r"
    using k by (simp add: tw_collect_by_keywords_def Let_def keyword_search_def set_method_nonempty nonempty_record_def)
  ultimately show ?thesis by blast
qed

lemma upstream_examples:
  "yt_upstream_nonempty ex_yt_api_nonempty" "rd_upstream_nonempty ex_rd_api"
  "tw_upstream_nonempty ex_tw_api"
  by (auto simp: yt_upstream_nonempty_def ex_yt_api_nonempty_def ex_yt_api_def
        rd_upstream_nonempty_def ex_rd_api_def tw_upstream_nonempty_def ex_tw_api_def ex_tweet_def)

text \<open>
  Claim C6, as stated, fails: no adapter looks at the id or the text it copies (the forum
  adapter only drops the bodies \<open>[deleted]\<close> and \<open>[removed]\<close>), so a comment that the
  platform returns with an empty text becomes a record with an empty \<open>text_raw\<close>.
\<close>

theorem records_nonempty_counterexample:
  "map rec_text_raw (fst (yt_collect_by_id ex_yt_api new_collector ''v'' 2)) = ['''', ''3asslema'']
   \<and> map rec_id (fst (yt_collect_by_id ex_yt_api new_collector ''v'' 2)) = [''y1'', ''y2'']"
  by code_simp

text \<open>
  Claim C6, amended. Every record returned by \<open>collect_by_id\<close> or
  \<open>collect_by_keywords\<close> on any adapter has a non-empty id and a non-empty
  \<open>text_raw\<close>, provided the platform returned no item with an empty id or an empty text:
  the adapters copy both unchanged and filter out nothing for being empty.
\<close>

theorem records_nonempty_when_upstream_nonempty:
  "(yt_upstream_nonempty yt \<longrightarrow>
      (\<forall>r \<in> set (fst (yt_collect_by_id yt self video_id limit))
            \<union> set (fst (yt_collect_by_keywords yt self keywords limit)).
         rec_id r \<noteq> [] \<and> rec_text_raw r \<noteq> []))
   \<and> (rd_upstream_nonempty rd \<longrightarrow>
      (\<forall>r \<in> set (fst (rd_collect_by_id rd self post_id limit))
            \<union> set (fst (rd_collect_by_keywords rd self keywords limit subreddit)).
         rec_id r \<noteq> [] \<and> rec_text_raw r \<noteq> []))
   \<and> (tw_upstream_nonempty tw \<longrightarrow>
      (\<forall>r \<in> set (fst (tw_collect_by_id tw self ident limit id_type))
            \<union> set (fst (tw_collect_by_keywords tw self keywords limit)).
         rec_id r \<noteq> [] \<and> rec_text_raw r \<noteq> []))"
  using yt_nonempty [of yt self video_id limit "keywords"]
    rd_nonempty [of rd self post_id limit "keywords" subreddit]
    tw_nonempty [of tw self ident limit id_type "keywords"]
  unfolding nonempty_record_def by blast

theorem records_nonempty_when_upstream_nonempty_witness:
  "yt_upstream_nonempty ex_yt_api_nonempty \<and> rd_upstream_nonempty ex_rd_api
   \<and> tw_upstream_nonempty ex_tw_api
   \<and> map (\<lambda>r. (rec_id r, rec_text_raw r)) (fst (yt_collect_by_id ex_yt_api_nonempty new_collector ''v'' 5))
        = [(''y1'', ''barcha'')]
   \<and> map (\<lambda>r. (rec_id r, rec_text_raw r)) (fst (rd_collect_by_id ex_rd_api new_collector ''p'' 5))
        = [(''k1'', ''marhba''), (''k2'', ''behi'')]
   \<and> map (\<lambda>r. (rec_id r, rec_text_raw r))
         (fst (tw_collect_by_keywords ex_tw_api new_collector [''tounes''] 5))
        = [(''t1'', ''aslema tounes''), (''t2'', ''behi tounes'')]
   \<and> list_all (\<lambda>r. rec_id r \<noteq> [] \<and> rec_text_raw r \<noteq> [])
        (fst (yt_collect_by_id ex_yt_api_nonempty new_collector ''v'' 5)
         @ fst (rd_collect_by_id ex_rd_api new_collector ''p'' 5)
         @ fst (tw_collect_by_keywords ex_tw_api new_collector [''tounes''] 5))"
proof -
  have e: "map (\<lambda>r. (rec_id r, rec_text_raw r)) (fst (yt_collect_by_id ex_yt_api_nonempty new_collector ''v'' 5))
        = [(''y1'', ''barcha'')]"
    "map (\<lambda>r. (rec_id r, rec_text_raw r)) (fst (rd_collect_by_id ex_rd_api new_collector ''p'' 5))
        = [(''k1'', ''marhba''), (''k2'', ''behi'')]"
    "map (\<lambda>r. (rec_id r, rec_text_raw r))
         (fst (tw_collect_by_keywords ex_tw_api new_collector [''tounes''] 5))
        = [(''t1'', ''aslema tounes''), (''t2'', ''behi tounes'')]"
    by code_simp+
  have "list_all (\<lambda>r. rec_id r \<noteq> [] \<and> rec_text_raw r \<noteq> [])
        (fst (yt_collect_by_id ex_yt_api_nonempty new_collector ''v'' 5)
         @ fst (rd_collect_by_id ex_rd_api new_collector ''p'' 5)
         @ fst (tw_collect_by_keywords ex_tw_api new_collector [''tounes''] 5))"
    using records_nonempty_when_upstream_nonempty
            [of ex_yt_api_nonempty new_collector "''v''" 5 "[''tounes'']" ex_rd_api "''p''"
                "''all''" ex_tw_api "''x''" "''username''"]
      upstream_examples
    by (simp add: list_all_iff) blast
  with e upstream_examples show ?thesis by simp
qed

subsection \<open>The budget of a keyword search\<close>

lemma int_div_mult_le_self: "0 < (n::int) \<Longrightarrow> a div n * n \<le> a"
  using div_mult_mod_eq [of a n] pos_mod_sign [of n a] by linarith

lemma yt_collect_videos_within_budget:
  "0 \<le> per \<Longrightarrow> int (length comments) + per * int (length video_ids) \<le> limit \<Longrightarrow>
   int (length (yt_collect_videos api keywords per limit video_ids comments)) \<le> limit"
proof (induction video_ids arbitrary: comments)
  case Nil
  then show ?case by simp
next
  case (Cons v vs)
  let ?new = "comments @ map (keyword_search keywords) (get_video_comments api v per)"
  have "int (length ?new) \<le> int (length comments) + per"
    using get_video_comments_length [OF Cons.prems(1), of api v] by simp
  moreover have "per * int (length (v # vs)) = per + per * int (length vs)"
    by (simp add: algebra_simps)
  ultimately have "int (length ?new) + per * int (length vs) \<le> limit"
    using Cons.prems(2) by linarith
  from Cons.IH [OF Cons.prems(1) this]
  have rec: "int (length (yt_collect_videos api keywords per limit vs ?new)) \<le> limit" .
  have "0 \<le> per * int (length (v # vs))"
    using Cons.prems(1) by (intro mult_nonneg_nonneg) simp_all
  with Cons.prems(2) have "int (length comments) \<le> limit" by linarith
  with rec show ?case by simp
qed

lemma yt_collect_videos_one_each:
  "int (length comments) \<le> limit \<Longrightarrow>
   int (length (yt_collect_videos api keywords 1 limit video_ids comments)) \<le> limit"
proof (induction video_ids arbitrary: comments)
  case Nil
  then show ?case by simp
next
  case (Cons v vs)
  show ?case
  proof (cases "int (length comments) \<ge> limit")
    case True
    with Cons.prems show ?thesis by simp
  next
    case False
    let ?new = "comments @ map (keyword_search keywords) (get_video_comments api v 1)"
    have "int (length ?new) \<le> int (length comments) + 1"
      using get_video_comments_length [of 1 api v] by simp
    with False have "int (length ?new) \<le> limit" by linarith
    from Cons.IH [OF this] False show ?thesis by simp
  qed
qed

lemma yt_search_and_collect_length:
  assumes "0 \<le> limit"
  shows "int (length (yt_search_and_collect api keywords limit)) \<le> limit"
proof -
  let ?ids = "search_videos_by_keywords api keywords 10 []"
  show ?thesis
  proof (cases "?ids = []")
    case True
    with assms show ?thesis by (simp add: yt_search_and_collect_def)
  next
    case False
    then have n: "0 < int (length ?ids)" by simp
    show ?thesis
    proof (cases "1 \<le> limit div int (length ?ids)")
      case True
      then have per: "max 1 (limit div int (length ?ids)) = limit div int (length ?ids)" by simp
      have "int (length ([]::collected list)) + limit div int (length ?ids) * int (length ?ids) \<le> limit"
        using int_div_mult_le_self [OF n, of limit] by simp
      from yt_collect_videos_within_budget [OF _ this, of api "keywords"] True
      show ?thesis using False per by (simp add: yt_search_and_collect_def Let_def)
    next
      case False
      then have per: "max 1 (limit div int (length ?ids)) = 1" by simp
      from yt_collect_videos_one_each [of "[]" limit api "keywords" ?ids] assms
      show ?thesis using \<open>?ids \<noteq> []\<close> per by (simp add: yt_search_and_collect_def Let_def)
    qed
  qed
qed

section \<open>The keyword budget of the forum and microblog adapters\<close>

lemma rd_collect_posts_within_budget:
  "0 \<le> per \<Longrightarrow> int (length comments) + per * int (length posts) \<le> limit \<Longrightarrow>
   int (length (rd_collect_posts api per limit posts comments)) \<le> limit"
proof (induction posts arbitrary: comments)
  case Nil
  then show ?case by simp
next
  case (Cons p ps)
  let ?new = "comments @ get_post_comments api p per"
  have "int (length ?new) \<le> int (length comments) + per"
    using get_post_comments_length [OF Cons.prems(1), of api p] by simp
  moreover have "per * int (length (p # ps)) = per + per * int (length ps)"
    by (simp add: algebra_simps)
  ultimately have "int (length ?new) + per * int (length ps) \<le> limit"
    using Cons.prems(2) by linarith
  from Cons.IH [OF Cons.prems(1) this]
  have rec: "int (length (rd_collect_posts api per limit ps ?new)) \<le> limit" .
  have "0 \<le> per * int (length (p # ps))"
    using Cons.prems(1) by (intro mult_nonneg_nonneg) simp_all
  with Cons.prems(2) have "int (length comments) \<le> limit" by linarith
  with rec show ?case by simp
qed

lemma rd_collect_posts_one_each:
  "int (length comments) \<le> limit \<Longrightarrow>
   int (length (rd_collect_posts api 1 limit posts comments)) \<le> limit"
proof (induction posts arbitrary: comments)
  case Nil
  then show ?case by simp
next
  case (Cons p ps)
  show ?case
  proof (cases "int (length comments) \<ge> limit")
    case True
    with Cons.prems show ?thesis by simp
  next
    case False
    let ?new = "comments @ get_post_comments api p 1"
    have "int (length ?new) \<le> int (length comments) + 1"
      using get_post_comments_length [of 1 api p] by simp
    with False have "int (length ?new) \<le> limit" by linarith
    from Cons.IH [OF this] False show ?thesis by simp
  qed
qed

lemma rd_search_and_collect_length:
  assumes "0 \<le> limit"
  shows "int (length (rd_search_and_collect api subreddit_name keywords limit)) \<le> limit"
proof -
  let ?posts = "search_subreddit_posts api subreddit_name keywords (limit div 10)"
  show ?thesis
  proof (cases "?posts = []")
    case True
    with assms show ?thesis by (simp add: rd_search_and_collect_def)
  next
    case False
    then have n: "0 < int (length ?posts)" by simp
    show ?thesis
    proof (cases "1 \<le> limit div int (length ?posts)")
      case True
      then have per: "max 1 (limit div int (length ?posts)) = limit div int (length ?posts)" by simp
      have "int (length ([]::collected list)) + limit div int (length ?posts) * int (length ?posts)
              \<le> limit"
        using int_div_mult_le_self [OF n, of limit] by simp
      from rd_collect_posts_within_budget [OF _ this, of api] True
      show ?thesis using False per by (simp add: rd_search_and_collect_def Let_def)
    next
      case False
      then have per: "max 1 (limit div int (length ?posts)) = 1" by simp
      from rd_collect_posts_one_each [of "[]" limit api ?posts] assms
      show ?thesis using \<open>?posts \<noteq> []\<close> per by (simp add: rd_search_and_collect_def Let_def)
    qed
  qed
qed

text \<open>
  The video and the forum adapter keep a keyword search within \<open>limit\<close>: each
  discovered item is asked for \<open>max(1, limit // count)\<close> comments and the loop stops
  once \<open>limit\<close> is reached.
\<close>

lemma video_and_forum_keyword_search_within_limit:
  assumes "0 \<le> limit"
  shows "int (length (fst (yt_collect_by_keywords yt self keywords limit))) \<le> limit"
    and "int (length (fst (rd_collect_by_keywords rd self keywords limit subreddit))) \<le> limit"
  using assms yt_search_and_collect_length [OF assms, of yt "keywords"]
    rd_search_and_collect_length [OF assms, of rd subreddit "keywords"]
  by (simp_all add: yt_collect_by_keywords_def rd_collect_by_keywords_def Let_def)

text \<open>
  The microblog adapter hands \<open>limit\<close> to each keyword's cursor and never looks at
  the running total: the result can hold \<open>limit\<close> records for every keyword.
\<close>

lemma search_tweets_by_keywords_length:
  "0 \<le> max_tweets \<Longrightarrow>
   int (length (search_tweets_by_keywords api keywords max_tweets tweets))
     \<le> int (length tweets) + max_tweets * int (length keywords)"
proof (induction "keywords" arbitrary: tweets)
  case Nil
  then show ?case by simp
next
  case (Cons k ks)
  let ?new = "append_tweets (\<lambda>tw. True) None (cursor_items max_tweets (search_tweets api k)) tweets"
  have "length ?new \<le> length tweets + length (cursor_items max_tweets (search_tweets api k))"
    by (rule append_tweets_length)
  with cursor_items_length [OF Cons.prems, of "search_tweets api k"]
  have "int (length ?new) \<le> int (length tweets) + max_tweets" by linarith
  moreover have "max_tweets * int (length (k # ks)) = max_tweets + max_tweets * int (length ks)"
    by (simp add: algebra_simps)
  ultimately show ?case using Cons.IH [OF Cons.prems, of ?new] by simp
qed

text \<open>
  Claim C3 at a call with three keywords and \<open>limit = 1\<close>, on platforms that have at
  least one item for every query: the microblog adapter returns three records, one per
  keyword, where the video and the forum adapter return one.
\<close>

theorem twitter_keyword_search_exceeds_limit:
  "length (fst (tw_collect_by_keywords ex_tw_api new_collector [''a'', ''b'', ''c''] 1)) = 3
   \<and> map rec_id (fst (tw_collect_by_keywords ex_tw_api new_collector [''a'', ''b'', ''c''] 1))
       = [''t1'', ''t1'', ''t1'']
   \<and> length (fst (yt_collect_by_keywords ex_yt_api new_collector [''a'', ''b'', ''c''] 1)) = 1
   \<and> length (fst (rd_collect_by_keywords ex_rd_api new_collector [''a'', ''b'', ''c''] 1 ''all'')) = 1"
  by code_simp

section \<open>Label mappings and the case of a label\<close>

lemma isspace_lower_char: "isspace (lower_char c) = isspace c"
proof -
  have "of_char (char_of (of_char c + 32 :: nat) :: char) = (of_char c + 32 :: nat)"
    if "(of_char c :: nat) \<le> 222"
    using that by (simp add: of_char_of)
  then show ?thesis
    by (auto simp: isspace_def lower_char_def Let_def)
qed

lemma lower_strip: "lower (strip s) = strip (lower s)"
proof -
  have d: "map lower_char (dropWhile isspace xs) = dropWhile isspace (map lower_char xs)" for xs
    by (simp add: dropWhile_map comp_def isspace_lower_char)
  show ?thesis
    by (simp add: lower_def strip_def lstrip_def rstrip_def rev_map [symmetric] d)
qed

text \<open>
  The spreadsheet and the ArSAS mapping do not depend on the case of the label, nor on
  white space around it.
\<close>

lemma arsas_mapped_case_insensitive: "lower s = lower t \<Longrightarrow> arsas_mapped s = arsas_mapped t"
  by (simp add: arsas_mapped_def lower_strip)

lemma excel_mapped_case_insensitive:
  "lower s = lower t \<Longrightarrow> excel_mapped (Some (Str s)) = excel_mapped (Some (Str t))"
  by (simp add: excel_mapped_def lower_strip)

end
